theory Spec2Isabelle
  imports Main "HOL-Library.Word"
begin

section \<open>JavaScript strings\<close>

text \<open>
  A JavaScript string is a sequence of 16-bit code units. String literals of the
  source are written \<open>js ''...''\<close>.
\<close>

type_synonym jsstring = "16 word list"

definition js :: "string \<Rightarrow> jsstring" where
  "js s = map (\<lambda>c. of_nat (of_char c)) s"

definition LF :: "16 word" where
  "LF = 0x0A"

definition CR :: "16 word" where
  "CR = 0x0D"

text \<open>
  The code units that \<open>String.prototype.trim\<close> strips: ECMAScript WhiteSpace
  (TAB, VT, FF, SP, NBSP, ZWNBSP and the Unicode space separators) and
  LineTerminator (LF, CR, LS, PS).
\<close>

definition isWhiteSpace :: "16 word \<Rightarrow> bool" where
  "isWhiteSpace c \<longleftrightarrow>
     c = 0x09 \<or> c = 0x0A \<or> c = 0x0B \<or> c = 0x0C \<or> c = 0x0D \<or> c = 0x20 \<or>
     c = 0xA0 \<or> c = 0x1680 \<or> (0x2000 \<le> c \<and> c \<le> 0x200A) \<or>
     c = 0x2028 \<or> c = 0x2029 \<or> c = 0x202F \<or> c = 0x205F \<or> c = 0x3000 \<or>
     c = 0xFEFF"

definition trim :: "jsstring \<Rightarrow> jsstring" where
  "trim s = rev (dropWhile isWhiteSpace (rev (dropWhile isWhiteSpace s)))"

text \<open>
  \<open>a || d\<close> where \<open>a\<close> is an optional string property and \<open>d\<close> a string:
  \<open>undefined\<close> and the empty string are falsy.
\<close>

definition or_else :: "jsstring option \<Rightarrow> jsstring \<Rightarrow> jsstring" where
  "or_else a d = (case a of None \<Rightarrow> d | Some v \<Rightarrow> if v = [] then d else v)"

section \<open>GatewaySessionsPanel: session identifiers\<close>

text \<open>
  \<^verbatim>\<open>
  interface SessionInfo {
    session_id?: string; id?: string; status?: string;
    last_activity?: string; agent_id?: string;
  }
  const getSessionId = (session: SessionInfo): string => {
    return session.session_id || session.id || "unknown";
  };
  \<close>
  The field \<open>id\<close> is named \<open>id_key\<close> here.
\<close>

record SessionInfo =
  session_id :: "jsstring option"
  id_key :: "jsstring option"
  status :: "jsstring option"
  last_activity :: "jsstring option"
  agent_id :: "jsstring option"

definition getSessionId :: "SessionInfo \<Rightarrow> jsstring" where
  "getSessionId session =
     or_else (session_id session) (or_else (id_key session) (js ''unknown''))"

section \<open>Agent forms: normalizeProtocolBlock\<close>

text \<open>
  \<^verbatim>\<open>
  const normalizeProtocolBlock = (value: string): string =>
    value.split(/\r?\n/).map((line) => line.trim()).filter(Boolean).join("\n");
  \<close>
  \<open>split_crlf\<close> is \<open>split(/\r?\n/)\<close>: scanning from the left, a CR directly
  followed by LF, or an LF, ends the current piece; a CR not followed by LF stays in
  the piece. The empty string splits into one empty piece.
\<close>

fun cons_line :: "16 word \<Rightarrow> jsstring list \<Rightarrow> jsstring list" where
  "cons_line c [] = [[c]]"
| "cons_line c (l # ls) = (c # l) # ls"

fun split_crlf :: "jsstring \<Rightarrow> jsstring list" where
  "split_crlf [] = [[]]"
| "split_crlf [c] = (if c = LF then [[], []] else [[c]])"
| "split_crlf (c # d # cs) =
     (if c = CR \<and> d = LF then [] # split_crlf cs
      else if c = LF then [] # split_crlf (d # cs)
      else cons_line c (split_crlf (d # cs)))"

text \<open>\<open>join_nl\<close> is \<open>Array.prototype.join("\n")\<close>.\<close>

fun join_nl :: "jsstring list \<Rightarrow> jsstring" where
  "join_nl [] = []"
| "join_nl [l] = l"
| "join_nl (l # m # ls) = l @ LF # join_nl (m # ls)"

definition normalizeProtocolBlock :: "jsstring \<Rightarrow> jsstring" where
  "normalizeProtocolBlock v =
     join_nl (filter (\<lambda>line. line \<noteq> []) (map trim (split_crlf v)))"

text \<open>
  The lines of a normalized block, for stating what the output looks like: the empty
  output has no lines, any other output is cut at its line breaks.
\<close>

definition block_lines :: "jsstring \<Rightarrow> jsstring list" where
  "block_lines out = (if out = [] then [] else split_crlf out)"

section \<open>SendMessageDialog\<close>

text \<open>
  \<^verbatim>\<open>
  const [content, setContent] = useState("");
  const [success, setSuccess] = useState(false);
  const [error, setError] = useState<string | null>(null);

  const handleSend = () => {
    if (!content.trim()) {
      setError("Message content is required.");
      return;
    }
    setError(null);
    setSuccess(false);
    sendMutation.mutate({ sessionId, data: { content: content.trim() } });
  };
  \<close>
  \<open>handleSend\<close> returns the dialog state after the call and the request handed
  to \<open>sendMutation.mutate\<close>, if any.
\<close>

record SendMessageState =
  content :: jsstring
  success :: bool
  send_error :: "jsstring option"

record send_request =
  sessionId :: jsstring
  data_content :: jsstring

definition handleSend ::
  "jsstring \<Rightarrow> SendMessageState \<Rightarrow> SendMessageState \<times> send_request option" where
  "handleSend sid st =
     (if trim (content st) = []
      then (st\<lparr>send_error := Some (js ''Message content is required.'')\<rparr>, None)
      else (st\<lparr>send_error := None, success := False\<rparr>,
            Some \<lparr>sessionId = sid, data_content = trim (content st)\<rparr>))"

section \<open>TemplateSyncDialog\<close>

text \<open>
  \<^verbatim>\<open>
  interface SyncResult {
    agents_updated: number; agents_skipped: number; main_updated: boolean;
    errors?: Array<{ agent_id: string; error: string }>;
  }
  \<close>
  The two counts are numbers of agents, modelled as natural numbers.
\<close>

record sync_error_entry =
  entry_agent_id :: jsstring
  entry_error :: jsstring

record SyncResult =
  agents_updated :: nat
  agents_skipped :: nat
  main_updated :: bool
  errors :: "sync_error_entry list option"

text \<open>
  The response handed to \<open>onSuccess\<close> (its \<open>data\<close> is read as a \<open>SyncResult\<close> only
  when the status is 200), the error handed to \<open>onError\<close>, and the parameters that
  \<open>handleSync\<close> passes to \<open>syncMutation.mutate\<close>.
\<close>

record sync_response =
  resp_status :: int
  resp_data :: SyncResult

record ApiError =
  message :: jsstring

record sync_params =
  include_main :: bool
  lead_only :: bool
  reset_sessions :: bool
  rotate_tokens :: bool
  force_bootstrap :: bool
  overwrite_p :: bool
  board_id :: "jsstring option"

record sync_request =
  gatewayId :: jsstring
  params :: sync_params

text \<open>The dialog's state: one field for each \<open>useState\<close> of the component.\<close>

record TemplateSyncState =
  includeMain :: bool
  leadOnly :: bool
  resetSessions :: bool
  rotateTokens :: bool
  forceBootstrap :: bool
  overwrite :: bool
  boardId :: jsstring
  result :: "SyncResult option"
  sync_error :: "jsstring option"

definition initial_sync_state :: TemplateSyncState where
  "initial_sync_state =
     \<lparr>includeMain = True, leadOnly = False, resetSessions = False, rotateTokens = False,
      forceBootstrap = False, overwrite = False, boardId = [], result = None,
      sync_error = None\<rparr>"

text \<open>
  \<^verbatim>\<open>
  onSuccess: (response) => {
    if (response.status === 200) {
      setResult(response.data as SyncResult);
      setError(null);
    }
  },
  onError: (err) => {
    setError(err.message || "Something went wrong.");
    setResult(null);
  },
  \<close>
\<close>

definition onSuccess :: "sync_response \<Rightarrow> TemplateSyncState \<Rightarrow> TemplateSyncState" where
  "onSuccess response st =
     (if resp_status response = 200
      then st\<lparr>result := Some (resp_data response), sync_error := None\<rparr>
      else st)"

definition onError :: "ApiError \<Rightarrow> TemplateSyncState \<Rightarrow> TemplateSyncState" where
  "onError err st =
     st\<lparr>sync_error := Some (or_else (Some (message err)) (js ''Something went wrong.'')),
        result := None\<rparr>"

text \<open>
  \<^verbatim>\<open>
  const handleSync = () => {
    setError(null);
    setResult(null);
    syncMutation.mutate({ gatewayId, params: { include_main: includeMain, ...,
        overwrite, board_id: boardId || null } });
  };
  const handleClose = () => {
    onOpenChange(false);
    setResult(null);
    setError(null);
  };
  \<close>
  \<open>handleSync\<close> returns the new state and the request handed to the mutation.
\<close>

definition handleSync ::
  "jsstring \<Rightarrow> TemplateSyncState \<Rightarrow> TemplateSyncState \<times> sync_request" where
  "handleSync gid st =
     (st\<lparr>sync_error := None, result := None\<rparr>,
      \<lparr>gatewayId = gid,
       params = \<lparr>include_main = includeMain st, lead_only = leadOnly st,
         reset_sessions = resetSessions st, rotate_tokens = rotateTokens st,
         force_bootstrap = forceBootstrap st, overwrite_p = overwrite st,
         board_id = (if boardId st = [] then None else Some (boardId st))\<rparr>\<rparr>)"

definition handleClose :: "TemplateSyncState \<Rightarrow> TemplateSyncState" where
  "handleClose st = st\<lparr>result := None, sync_error := None\<rparr>"

text \<open>
  Everything that can happen to the dialog: the option setters of the form, the two
  button handlers and the two callbacks of the mutation, in any order.
\<close>

datatype sync_event =
    SetIncludeMain bool
  | SetLeadOnly bool
  | SetResetSessions bool
  | SetRotateTokens bool
  | SetForceBootstrap bool
  | SetOverwrite bool
  | SetBoardId jsstring
  | HandleSync
  | OnSuccess sync_response
  | OnError ApiError
  | HandleClose

fun sync_step :: "jsstring \<Rightarrow> TemplateSyncState \<Rightarrow> sync_event \<Rightarrow> TemplateSyncState" where
  "sync_step gid st (SetIncludeMain b) = st\<lparr>includeMain := b\<rparr>"
| "sync_step gid st (SetLeadOnly b) = st\<lparr>leadOnly := b\<rparr>"
| "sync_step gid st (SetResetSessions b) = st\<lparr>resetSessions := b\<rparr>"
| "sync_step gid st (SetRotateTokens b) = st\<lparr>rotateTokens := b\<rparr>"
| "sync_step gid st (SetForceBootstrap b) = st\<lparr>forceBootstrap := b\<rparr>"
| "sync_step gid st (SetOverwrite b) = st\<lparr>overwrite := b\<rparr>"
| "sync_step gid st (SetBoardId v) = st\<lparr>boardId := v\<rparr>"
| "sync_step gid st HandleSync = fst (handleSync gid st)"
| "sync_step gid st (OnSuccess response) = onSuccess response st"
| "sync_step gid st (OnError err) = onError err st"
| "sync_step gid st HandleClose = handleClose st"

definition run_sync :: "jsstring \<Rightarrow> sync_event list \<Rightarrow> TemplateSyncState" where
  "run_sync gid evs = foldl (sync_step gid) initial_sync_state evs"

text \<open>
  What the dialog body shows. With a result: the summary panel and, when the result
  has a non-empty \<open>errors\<close> array, the panel with one row for each entry; without
  a result: the options form. The error banner is shown whenever \<open>error\<close> is a non-empty string.
\<close>

record sync_view =
  summary_panel :: "(nat \<times> nat \<times> bool) option"
  error_rows :: "(jsstring \<times> jsstring) list option"
  options_form :: bool
  error_banner :: "jsstring option"

definition render_sync :: "TemplateSyncState \<Rightarrow> sync_view" where
  "render_sync st =
     (let banner = (case sync_error st of None \<Rightarrow> None
                    | Some e \<Rightarrow> if e = [] then None else Some e)
      in case result st of
           Some r \<Rightarrow>
             \<lparr>summary_panel = Some (agents_updated r, agents_skipped r, main_updated r),
              error_rows = (case errors r of None \<Rightarrow> None
                            | Some es \<Rightarrow>
                                if length es > 0
                                then Some (map (\<lambda>e. (entry_agent_id e, entry_error e)) es)
                                else None),
              options_form = False, error_banner = banner\<rparr>
         | None \<Rightarrow>
             \<lparr>summary_panel = None, error_rows = None, options_form = True,
              error_banner = banner\<rparr>)"

text \<open>The invariant of claim C4: the result and the error are never both set.\<close>

definition at_most_one_set :: "TemplateSyncState \<Rightarrow> bool" where
  "at_most_one_set st \<longleftrightarrow> result st = None \<or> sync_error st = None"

section \<open>Template sync orchestration\<close>

text \<open>
  Modelled from the spec: \<open>syncTemplates\<close>, the Template Sync Orchestrator of the
  gateway session bridge, runs on the backend and is not part of the sources; only the
  dialog that calls it and the \<open>SyncResult\<close> it returns are. The model follows
  sections 4.1, 4.5 and 7 of the specification: a bridge that never connected fails
  with \<open>ConnectionError\<close>; otherwise the candidate agents are the gateway's agents,
  filtered to one board when a board is given and to lead agents when \<open>lead_only\<close>
  is set; each candidate is pushed to in turn, its outcome (updated, skipped, or failed
  with a message) is recorded, and a failure becomes an entry of the error list and
  processing continues with the next candidate. What the gateway answers to each push
  is a parameter of the model.
\<close>

datatype bridge_error = ConnectionError | ValidationError | SessionNotFoundError

record agent =
  agent_ident :: jsstring
  agent_board :: jsstring
  agent_is_lead :: bool

datatype agent_outcome = Updated | Skipped | Failed jsstring

text \<open>
  Modelled from the spec: the candidate agent set of section 4.5, all agents on the
  gateway, optionally filtered to one board and to lead agents only.
\<close>

definition candidates :: "sync_params \<Rightarrow> agent list \<Rightarrow> agent list" where
  "candidates p ags =
     filter (\<lambda>a. (case board_id p of None \<Rightarrow> True | Some b \<Rightarrow> agent_board a = b) \<and>
                 (if lead_only p then agent_is_lead a else True)) ags"

definition add_error :: "SyncResult \<Rightarrow> sync_error_entry \<Rightarrow> SyncResult" where
  "add_error r e = r\<lparr>errors := Some ((case errors r of None \<Rightarrow> [] | Some es \<Rightarrow> es) @ [e])\<rparr>"

fun record_outcome :: "SyncResult \<Rightarrow> agent \<Rightarrow> agent_outcome \<Rightarrow> SyncResult" where
  "record_outcome r a Updated = r\<lparr>agents_updated := agents_updated r + 1\<rparr>"
| "record_outcome r a Skipped = r\<lparr>agents_skipped := agents_skipped r + 1\<rparr>"
| "record_outcome r a (Failed msg) =
     add_error r \<lparr>entry_agent_id = agent_ident a, entry_error = msg\<rparr>"

text \<open>
  Modelled from the spec: the per-agent loop of section 4.5; a failure is recorded and
  the loop goes on with the remaining agents.
\<close>

fun sync_agents :: "(agent \<Rightarrow> agent_outcome) \<Rightarrow> agent list \<Rightarrow> SyncResult \<Rightarrow> SyncResult" where
  "sync_agents push [] r = r"
| "sync_agents push (a # as) r = sync_agents push as (record_outcome r a (push a))"

text \<open>
  Modelled from the spec: \<open>syncTemplates(gatewayId, options)\<close> of section 4.5. The
  arguments are whether the bridge is connected to the gateway, the gateway's answer to
  a push to an agent and to the main session, the gateway's agents and the options.
\<close>

definition syncTemplates ::
  "bool \<Rightarrow> (sync_params \<Rightarrow> agent \<Rightarrow> agent_outcome) \<Rightarrow> (sync_params \<Rightarrow> bool) \<Rightarrow>
   agent list \<Rightarrow> sync_params \<Rightarrow> bridge_error + SyncResult" where
  "syncTemplates connected push push_main ags p =
     (if \<not> connected then Inl ConnectionError
      else Inr (sync_agents (push p) (candidates p ags)
             \<lparr>agents_updated = 0, agents_skipped = 0,
              main_updated = (include_main p \<and> push_main p),
              errors = Some []\<rparr>))"

text \<open>The error entries a run must report: one for each failing agent, in order.\<close>

fun failure_entries :: "(agent \<Rightarrow> agent_outcome) \<Rightarrow> agent list \<Rightarrow> sync_error_entry list" where
  "failure_entries push [] = []"
| "failure_entries push (a # as) =
     (case push a of
        Failed msg \<Rightarrow> \<lparr>entry_agent_id = agent_ident a, entry_error = msg\<rparr> #
                       failure_entries push as
      | _ \<Rightarrow> failure_entries push as)"

section \<open>History store\<close>

text \<open>
  \<^verbatim>\<open>
  interface HistoryEvent {
    timestamp?: string; event_type?: string; content?: string;
  }
  \<close>
\<close>

record HistoryEvent =
  timestamp :: "jsstring option"
  event_type :: "jsstring option"
  event_content :: "jsstring option"

text \<open>
  Modelled from the spec: the History Store and the dispatcher's \<open>onFrame\<close> run on
  the backend and are not part of the sources. The model follows sections 3, 4.2, 4.3
  and 4.4 of the specification: the store keeps one append-only log for each session
  it has a record of; a lifecycle frame makes the session known; an event frame is
  appended to the log of its session in arrival order (making the session known if it
  was not); the log is bounded by a cap, the oldest events being evicted first;
  \<open>getHistory\<close> fails with \<open>SessionNotFoundError\<close> for a session without a record
  and returns the log, oldest first, otherwise.
\<close>

type_synonym history_store = "jsstring \<rightharpoonup> HistoryEvent list"

datatype frame = Lifecycle jsstring | EventFrame jsstring HistoryEvent


definition evict :: "nat \<Rightarrow> 'a list \<Rightarrow> 'a list" where
  "evict cap l = drop (length l - cap) l"

text \<open>
  Modelled from the spec: \<open>onFrame\<close> of section 4.3, with the retention cap of
  section 4.4 as its first argument.
\<close>

fun onFrame :: "nat \<Rightarrow> history_store \<Rightarrow> frame \<Rightarrow> history_store" where
  "onFrame cap st (Lifecycle sid) =
     (case st sid of None \<Rightarrow> st(sid \<mapsto> []) | Some l \<Rightarrow> st)"
| "onFrame cap st (EventFrame sid ev) =
     st(sid \<mapsto> evict cap ((case st sid of None \<Rightarrow> [] | Some l \<Rightarrow> l) @ [ev]))"

text \<open>
  Modelled from the spec: \<open>getHistory(sessionId)\<close> of section 4.4.
\<close>

definition getHistory :: "history_store \<Rightarrow> jsstring \<Rightarrow> bridge_error + HistoryEvent list" where
  "getHistory st sid =
     (case st sid of None \<Rightarrow> Inl SessionNotFoundError | Some l \<Rightarrow> Inr l)"




section \<open>SessionHistoryDialog\<close>

text \<open>
  \<^verbatim>\<open>
  const history = useMemo(() => {
    if (historyQuery.data?.status === 200) {
      return (historyQuery.data.data.history ?? []) as HistoryEvent[];
    }
    return [];
  }, [historyQuery.data]);
  \<close>
\<close>

record history_response =
  hist_status :: int
  hist_history :: "HistoryEvent list option"

record history_query =
  isLoading :: bool
  query_error :: "ApiError option"
  query_data :: "history_response option"

definition history_of :: "history_query \<Rightarrow> HistoryEvent list" where
  "history_of q =
     (case query_data q of
        None \<Rightarrow> []
      | Some r \<Rightarrow> if hist_status r = 200
                  then (case hist_history r of None \<Rightarrow> [] | Some h \<Rightarrow> h)
                  else [])"

text \<open>
  The body of the dialog:
  \<^verbatim>\<open>
  {historyQuery.isLoading ? ( Loading history... )
   : historyQuery.error ? ( {historyQuery.error.message} )
   : history.length === 0 ? ( No history events found. )
   : ( history.map((event, index) => ...) )}
  \<close>
  Each row shows the event type, the content and the formatted timestamp, each only
  when it is a non-empty string. \<open>formatTimestamp\<close> comes from a module that is
  not part of the sources and is a parameter here.
\<close>

definition shown :: "jsstring option \<Rightarrow> jsstring option" where
  "shown a = (case a of None \<Rightarrow> None | Some v \<Rightarrow> if v = [] then None else Some v)"

record event_row =
  row_event_type :: "jsstring option"
  row_content :: "jsstring option"
  row_timestamp :: "jsstring option"

definition event_row_of :: "(jsstring \<Rightarrow> jsstring) \<Rightarrow> HistoryEvent \<Rightarrow> event_row" where
  "event_row_of formatTimestamp ev =
     \<lparr>row_event_type = shown (event_type ev), row_content = shown (event_content ev),
      row_timestamp = map_option formatTimestamp (shown (timestamp ev))\<rparr>"

datatype history_view =
    LoadingHistory
  | HistoryError jsstring
  | NoHistory jsstring
  | HistoryRows "event_row list"

definition render_history :: "(jsstring \<Rightarrow> jsstring) \<Rightarrow> history_query \<Rightarrow> history_view" where
  "render_history formatTimestamp q =
     (if isLoading q then LoadingHistory
      else case query_error q of
        Some err \<Rightarrow> HistoryError (message err)
      | None \<Rightarrow>
          if length (history_of q) = 0 then NoHistory (js ''No history events found.'')
          else HistoryRows (map (event_row_of formatTimestamp) (history_of q)))"

text \<open>
  Modelled from the spec: the route and the generated client between \<open>getHistory\<close>
  and the dialog's query are not part of the sources. By section 6 of the
  specification the operation returns a typed success payload or a structured error
  with a human-readable message: a failure settles the query with an error carrying
  the message of the failure (a parameter), a success with status 200 and the events.
\<close>

definition settle_history ::
  "(bridge_error \<Rightarrow> jsstring) \<Rightarrow> bridge_error + HistoryEvent list \<Rightarrow> history_query" where
  "settle_history describe res =
     (case res of
        Inl e \<Rightarrow> \<lparr>isLoading = False, query_error = Some \<lparr>message = describe e\<rparr>,
                   query_data = None\<rparr>
      | Inr evs \<Rightarrow> \<lparr>isLoading = False, query_error = None,
                     query_data = Some \<lparr>hist_status = 200, hist_history = Some evs\<rparr>\<rparr>)"

section \<open>Gateway URL validation\<close>

text \<open>
  Modelled from the spec: \<open>validateGatewayUrl\<close> (\<open>lib/gateway-form.ts\<close>) is not
  part of the sources; only its test \<open>gateway-form.test.ts\<close> is. The model follows
  section 6 of the specification and the cases of the test: the input is trimmed; the
  empty input is "required"; an input that is not a URL is malformed; a URL whose
  scheme is not \<open>ws\<close> or \<open>wss\<close> is refused; a \<open>ws\<close> or \<open>wss\<close> URL without port
  digits lacks an explicit port; everything else is valid (\<open>null\<close>). What is a URL
  is what the JavaScript URL API, which the test names, parses: the scheme is the text
  before the first colon, compared without regard to case; for \<open>ws\<close> and \<open>wss\<close>
  any slashes and backslashes after the colon are skipped and the authority runs to
  the next slash, backslash, question mark or hash; what precedes the last \<open>@\<close> of
  the authority is credentials; the host ends at the first colon outside square
  brackets and is an IPv6 literal in brackets, or a domain that after percent-decoding
  is non-empty, has no forbidden code point and, when it ends in a number, is an IPv4
  address; the port is a decimal number of at most 65535. Non-ASCII domains are
  taken as written, and IPv4 notation inside an IPv6 literal is not covered.
\<close>

definition colon :: "16 word" where
  "colon = 0x3A"

definition slash :: "16 word" where
  "slash = 0x2F"

definition backslash :: "16 word" where
  "backslash = 0x5C"

definition at_sign :: "16 word" where
  "at_sign = 0x40"

definition lbracket :: "16 word" where
  "lbracket = 0x5B"

definition rbracket :: "16 word" where
  "rbracket = 0x5D"

definition percent :: "16 word" where
  "percent = 0x25"

definition dot :: "16 word" where
  "dot = 0x2E"

definition is_slash :: "16 word \<Rightarrow> bool" where
  "is_slash c \<longleftrightarrow> c = slash \<or> c = backslash"

definition is_delim :: "16 word \<Rightarrow> bool" where
  "is_delim c \<longleftrightarrow> c = slash \<or> c = backslash \<or> c = 0x3F \<or> c = 0x23"

definition is_digit :: "16 word \<Rightarrow> bool" where
  "is_digit c \<longleftrightarrow> 0x30 \<le> c \<and> c \<le> 0x39"


definition is_hex :: "16 word \<Rightarrow> bool" where
  "is_hex c \<longleftrightarrow> is_digit c \<or> (0x41 \<le> c \<and> c \<le> 0x46) \<or> (0x61 \<le> c \<and> c \<le> 0x66)"



definition hex_value :: "16 word \<Rightarrow> nat" where
  "hex_value c =
     (if is_digit c then unat c - 48
      else if 0x41 \<le> c \<and> c \<le> 0x46 then unat c - 55
      else unat c - 87)"

text \<open>
  Modelled from the spec: the forbidden domain code points of the URL standard, the
  controls, space, \<open>#\<close>, \<open>%\<close>, \<open>/\<close>, \<open>:\<close>, \<open><\<close>, \<open>>\<close>, \<open>?\<close>, \<open>@\<close>,
  \<open>[\<close>, \<open>\\<close>, \<open>]\<close>, \<open>^\<close>, \<open>|\<close> and DEL.
\<close>

definition forbidden_host :: "16 word \<Rightarrow> bool" where
  "forbidden_host c \<longleftrightarrow>
     c \<le> 0x20 \<or> c = 0x7F \<or>
     c \<in> set [0x23, 0x25, 0x2F, 0x3A, 0x3C, 0x3E, 0x3F, 0x40, 0x5B, 0x5C, 0x5D, 0x5E, 0x7C]"


text \<open>Modelled from the spec: the value of a run of digits in a radix.\<close>

definition radix_value :: "nat \<Rightarrow> jsstring \<Rightarrow> nat" where
  "radix_value r ds = foldl (\<lambda>n d. r * n + hex_value d) 0 ds"

definition port_value :: "jsstring \<Rightarrow> nat" where
  "port_value ds = radix_value 10 ds"

text \<open>
  Modelled from the spec: percent-decoding of a host, every \<open>%\<close> followed by two
  hexadecimal digits becoming the code unit they denote.
\<close>

fun percent_decode :: "jsstring \<Rightarrow> jsstring" where
  "percent_decode (c # a # b # cs) =
     (if c = percent \<and> is_hex a \<and> is_hex b
      then of_nat (16 * hex_value a + hex_value b) # percent_decode cs
      else c # percent_decode (a # b # cs))"
| "percent_decode cs = cs"

text \<open>
  Modelled from the spec: the IPv6 parser of the URL standard, without its IPv4
  suffix: up to eight pieces of one to four hexadecimal digits separated by single
  colons, one \<open>::\<close> allowed in place of one or more pieces. The scan keeps the number
  of pieces read, whether the \<open>::\<close> was seen, and where it is within a piece.
\<close>

datatype piece_state = AtStart | AfterSep | InPiece nat

fun ipv6_scan :: "nat \<Rightarrow> bool \<Rightarrow> piece_state \<Rightarrow> jsstring \<Rightarrow> bool" where
  "ipv6_scan idx cmpr AtStart [] = (cmpr \<or> idx = 8)"
| "ipv6_scan idx cmpr AfterSep [] = False"
| "ipv6_scan idx cmpr (InPiece k) [] = (cmpr \<or> idx + 1 = 8)"
| "ipv6_scan idx cmpr (InPiece k) (c # cs) =
     (if c = colon then ipv6_scan (idx + 1) cmpr AfterSep cs
      else if is_hex c \<and> k < 4 then ipv6_scan idx cmpr (InPiece (k + 1)) cs
      else False)"
| "ipv6_scan idx cmpr st (c # cs) =
     (if idx = 8 then False
      else if c = colon then (if cmpr then False else ipv6_scan (idx + 1) True AtStart cs)
      else if is_hex c then ipv6_scan idx cmpr (InPiece 1) cs
      else False)"

definition ipv6_ok :: "jsstring \<Rightarrow> bool" where
  "ipv6_ok inner =
     (case inner of
        [] \<Rightarrow> False
      | c # rest \<Rightarrow>
          if c = colon
          then (case rest of
                  [] \<Rightarrow> False
                | d # rest' \<Rightarrow> if d = colon then ipv6_scan 1 True AtStart rest' else False)
          else ipv6_scan 0 False AtStart inner)"

text \<open>
  Modelled from the spec: the IPv4 part of the host parser. A domain whose last label
  is a number must be an IPv4 address: at most four numbers, decimal, octal with a
  leading \<open>0\<close> or hexadecimal with a leading \<open>0x\<close>, each but the last at most 255
  and the last filling the remaining bytes.
\<close>

fun split_dots :: "jsstring \<Rightarrow> jsstring list" where
  "split_dots [] = [[]]"
| "split_dots (c # cs) =
     (if c = dot then [] # split_dots cs
      else (case split_dots cs of [] \<Rightarrow> [[c]] | l # ls \<Rightarrow> (c # l) # ls))"

definition radix_digit :: "nat \<Rightarrow> 16 word \<Rightarrow> bool" where
  "radix_digit r c =
     (if r = 16 then is_hex c
      else if r = 8 then 0x30 \<le> c \<and> c \<le> 0x37
      else is_digit c)"

definition ipv4_digits :: "nat \<Rightarrow> jsstring \<Rightarrow> nat option" where
  "ipv4_digits r ds = (if list_all (radix_digit r) ds then Some (radix_value r ds) else None)"

definition parse_ipv4_number :: "jsstring \<Rightarrow> nat option" where
  "parse_ipv4_number s =
     (case s of
        [] \<Rightarrow> None
      | [c] \<Rightarrow> ipv4_digits 10 s
      | c # d # rest \<Rightarrow>
          if c = 0x30 \<and> (d = 0x78 \<or> d = 0x58) then ipv4_digits 16 rest
          else if c = 0x30 then ipv4_digits 8 (d # rest)
          else ipv4_digits 10 s)"

definition drop_last_empty :: "jsstring list \<Rightarrow> jsstring list" where
  "drop_last_empty parts =
     (if length parts > 1 \<and> last parts = [] then butlast parts else parts)"

definition ends_in_number :: "jsstring list \<Rightarrow> bool" where
  "ends_in_number parts =
     (case rev (drop_last_empty parts) of
        [] \<Rightarrow> False
      | l # before \<Rightarrow>
          (l \<noteq> [] \<and> list_all is_digit l) \<or> parse_ipv4_number l \<noteq> None)"

definition ipv4_ok :: "jsstring list \<Rightarrow> bool" where
  "ipv4_ok parts =
     (let ps = drop_last_empty parts; ns = map parse_ipv4_number ps
      in length ps \<le> 4 \<and> list_all (\<lambda>n. n \<noteq> None) ns \<and>
         list_all (\<lambda>n. case n of None \<Rightarrow> False | Some k \<Rightarrow> k \<le> 255) (butlast ns) \<and>
         (case last ns of None \<Rightarrow> False | Some k \<Rightarrow> k < 256 ^ (5 - length ps)))"

definition domain_ok :: "jsstring \<Rightarrow> bool" where
  "domain_ok h =
     (let d = percent_decode h
      in d \<noteq> [] \<and> list_all (\<lambda>c. \<not> forbidden_host c) d \<and>
         (if ends_in_number (split_dots d) then ipv4_ok (split_dots d) else True))"

text \<open>
  Modelled from the spec: a host is an IPv6 literal in square brackets or a domain.
\<close>

definition valid_host :: "jsstring \<Rightarrow> bool" where
  "valid_host h =
     (case h of
        [] \<Rightarrow> False
      | c # cs \<Rightarrow>
          if c = lbracket
          then (case rev cs of [] \<Rightarrow> False | b # ri \<Rightarrow> b = rbracket \<and> ipv6_ok (rev ri))
          else domain_ok h)"




text \<open>
  Modelled from the spec: the authority of a \<open>ws\<close> or \<open>wss\<close> URL, after any slashes
  and backslashes and up to the next delimiter, and within it the host and port, after
  the last \<open>@\<close>.
\<close>

definition authority_text :: "jsstring \<Rightarrow> jsstring" where
  "authority_text after = takeWhile (\<lambda>c. \<not> is_delim c) (dropWhile is_slash after)"

definition host_port_text :: "jsstring \<Rightarrow> jsstring" where
  "host_port_text auth = rev (takeWhile (\<lambda>c. c \<noteq> at_sign) (rev auth))"

text \<open>
  Modelled from the spec: the host runs to the first colon outside square brackets.
\<close>

fun scan_host :: "bool \<Rightarrow> jsstring \<Rightarrow> jsstring \<times> jsstring" where
  "scan_host inside [] = ([], [])"
| "scan_host inside (c # cs) =
     (if c = colon \<and> \<not> inside then ([], c # cs)
      else (case scan_host (if c = lbracket then True
                            else if c = rbracket then False else inside) cs of
              (h, r) \<Rightarrow> (c # h, r)))"

text \<open>
  Modelled from the spec: the port text after the host, nothing or a colon followed
  by digits of a number of at most 65535; \<open>None\<close> when it is malformed.
\<close>

definition parse_port :: "jsstring \<Rightarrow> jsstring option option" where
  "parse_port p =
     (case p of
        [] \<Rightarrow> Some None
      | k # ds \<Rightarrow>
          if list_all is_digit ds \<and> port_value ds \<le> 65535 then Some (Some ds) else None)"

text \<open>
  Modelled from the spec: the host and the port text, if any, of what follows the
  scheme; \<open>None\<close> when it is malformed.
\<close>

definition url_authority :: "jsstring \<Rightarrow> (jsstring \<times> jsstring option) option" where
  "url_authority after =
     (case scan_host False (host_port_text (authority_text after)) of
        (host, p) \<Rightarrow>
          if valid_host host
          then (case parse_port p of None \<Rightarrow> None | Some port \<Rightarrow> Some (host, port))
          else None)"



text \<open>
  The grammar of a \<open>ws\<close> or \<open>wss\<close> URL, for stating what the validator accepts: the
  parts of the URL, the text they spell, and when they are well formed.
\<close>

record url_parts =
  scheme_part :: jsstring
  slashes_part :: jsstring
  userinfo_part :: "jsstring option"
  host_part :: jsstring
  port_part :: "jsstring option"
  tail_part :: jsstring

definition url_tail :: "jsstring \<Rightarrow> bool" where
  "url_tail r \<longleftrightarrow> (case r of [] \<Rightarrow> True | c # cs \<Rightarrow> is_delim c)"

definition authority_spelling :: "url_parts \<Rightarrow> jsstring" where
  "authority_spelling p =
     slashes_part p @
     (case userinfo_part p of None \<Rightarrow> [] | Some u \<Rightarrow> u @ [at_sign]) @
     host_part p @
     (case port_part p of None \<Rightarrow> [] | Some ds \<Rightarrow> colon # ds) @
     tail_part p"


definition authority_well_formed :: "url_parts \<Rightarrow> bool" where
  "authority_well_formed p \<longleftrightarrow>
     list_all is_slash (slashes_part p) \<and>
     (case userinfo_part p of None \<Rightarrow> True | Some u \<Rightarrow> list_all (\<lambda>c. \<not> is_delim c) u) \<and>
     valid_host (host_part p) \<and>
     (case port_part p of
        None \<Rightarrow> True
      | Some ds \<Rightarrow> list_all is_digit ds \<and> port_value ds \<le> 65535) \<and>
     url_tail (tail_part p)"


section \<open>Properties of getSessionId\<close>

lemma js_unknown_nonempty: "js ''unknown'' \<noteq> []"
  by (simp add: js_def)

lemma or_else_nonempty: "d \<noteq> [] \<Longrightarrow> or_else a d \<noteq> []"
  by (simp add: or_else_def split: option.splits)

text \<open>
  Claim C5, as amended: the session id is resolved from the \<open>session_id\<close> field or
  the \<open>id\<close> field, \<open>session_id\<close> preferred. A session that carries a non-empty
  \<open>session_id\<close> resolves to that value; a session whose \<open>session_id\<close> is absent or
  the empty string and whose \<open>id\<close> is non-empty resolves to the \<open>id\<close>; and the
  \<open>id\<close> field is used only then: if the resolved identifier depends on the \<open>id\<close>
  field, the \<open>session_id\<close> is absent or the empty string.
\<close>

theorem getSessionId_prefers_session_id:
  "(session_id s = Some v \<and> v \<noteq> [] \<longrightarrow> getSessionId s = v) \<and>
   ((session_id s = None \<or> session_id s = Some []) \<and> id_key s = Some w \<and> w \<noteq> []
      \<longrightarrow> getSessionId s = w) \<and>
   (getSessionId (s\<lparr>id_key := a\<rparr>) \<noteq> getSessionId (s\<lparr>id_key := b\<rparr>)
      \<longrightarrow> session_id s = None \<or> session_id s = Some [])"
  by (auto simp: getSessionId_def or_else_def split: option.splits if_splits)

theorem getSessionId_prefers_session_id_witness:
  "session_id \<lparr>session_id = Some (js ''s-1''), id_key = Some (js ''legacy''),
      status = None, last_activity = None, agent_id = None\<rparr> = Some (js ''s-1'')
   \<and> js ''s-1'' \<noteq> []
   \<and> getSessionId \<lparr>session_id = Some (js ''s-1''), id_key = Some (js ''legacy''),
      status = None, last_activity = None, agent_id = None\<rparr> = js ''s-1''
   \<and> getSessionId \<lparr>session_id = None, id_key = Some (js ''legacy''),
      status = None, last_activity = None, agent_id = None\<rparr> = js ''legacy''
   \<and> getSessionId \<lparr>session_id = Some [], id_key = Some (js ''legacy''),
      status = None, last_activity = None, agent_id = None\<rparr> = js ''legacy''
   \<and> getSessionId (\<lparr>session_id = None, id_key = None,
      status = None, last_activity = None, agent_id = None\<rparr>\<lparr>id_key := Some (js ''a'')\<rparr>)
     \<noteq> getSessionId (\<lparr>session_id = None, id_key = None,
      status = None, last_activity = None, agent_id = None\<rparr>\<lparr>id_key := Some (js ''b'')\<rparr>)"
proof -
  let ?s = "\<lparr>session_id = Some (js ''s-1''), id_key = Some (js ''legacy''),
      status = None, last_activity = None, agent_id = None\<rparr>"
  let ?t = "\<lparr>session_id = None, id_key = Some (js ''legacy''),
      status = None, last_activity = None, agent_id = None\<rparr>"
  let ?u = "\<lparr>session_id = Some [], id_key = Some (js ''legacy''),
      status = None, last_activity = None, agent_id = None\<rparr>"
  let ?n = "\<lparr>session_id = None, id_key = None,
      status = None, last_activity = None, agent_id = None\<rparr>"
  have l: "js ''legacy'' \<noteq> []" by (simp add: js_def)
  have h: "session_id ?s = Some (js ''s-1'') \<and> js ''s-1'' \<noteq> []"
    by (simp add: js_def)
  from getSessionId_prefers_session_id [of ?s "js ''s-1''"] h
  have 1: "getSessionId ?s = js ''s-1''" by blast
  have "(session_id ?t = None \<or> session_id ?t = Some []) \<and>
      id_key ?t = Some (js ''legacy'')" by simp
  with getSessionId_prefers_session_id [of ?t _ "js ''legacy''"] l
  have 2: "getSessionId ?t = js ''legacy''" by blast
  have "(session_id ?u = None \<or> session_id ?u = Some []) \<and>
      id_key ?u = Some (js ''legacy'')" by simp
  with getSessionId_prefers_session_id [of ?u _ "js ''legacy''"] l
  have 3: "getSessionId ?u = js ''legacy''" by blast
  have ab: "js ''a'' \<noteq> [] \<and> js ''b'' \<noteq> [] \<and> js ''a'' \<noteq> js ''b''"
    by (simp add: js_def)
  have na: "(session_id (?n\<lparr>id_key := Some (js ''a'')\<rparr>) = None \<or>
       session_id (?n\<lparr>id_key := Some (js ''a'')\<rparr>) = Some []) \<and>
      id_key (?n\<lparr>id_key := Some (js ''a'')\<rparr>) = Some (js ''a'')" by simp
  with getSessionId_prefers_session_id [of "?n\<lparr>id_key := Some (js ''a'')\<rparr>" _ "js ''a''"] ab
  have 4: "getSessionId (?n\<lparr>id_key := Some (js ''a'')\<rparr>) = js ''a''" by blast
  have nb: "(session_id (?n\<lparr>id_key := Some (js ''b'')\<rparr>) = None \<or>
       session_id (?n\<lparr>id_key := Some (js ''b'')\<rparr>) = Some []) \<and>
      id_key (?n\<lparr>id_key := Some (js ''b'')\<rparr>) = Some (js ''b'')" by simp
  with getSessionId_prefers_session_id [of "?n\<lparr>id_key := Some (js ''b'')\<rparr>" _ "js ''b''"] ab
  have 5: "getSessionId (?n\<lparr>id_key := Some (js ''b'')\<rparr>) = js ''b''" by blast
  from 4 5 ab have 6: "getSessionId (?n\<lparr>id_key := Some (js ''a'')\<rparr>) \<noteq>
      getSessionId (?n\<lparr>id_key := Some (js ''b'')\<rparr>)" by simp
  from h 1 2 3 6 show ?thesis by blast
qed

text \<open>
  Claim C5 as stated fails: a session whose \<open>session_id\<close> is the empty string and
  whose \<open>id\<close> is \<open>"legacy"\<close> carries a \<open>session_id\<close>, yet resolves to \<open>"legacy"\<close>.
\<close>

theorem getSessionId_empty_session_id_counterexample:
  "session_id \<lparr>session_id = Some [], id_key = Some (js ''legacy''),
      status = None, last_activity = None, agent_id = None\<rparr> = Some []
   \<and> getSessionId \<lparr>session_id = Some [], id_key = Some (js ''legacy''),
      status = None, last_activity = None, agent_id = None\<rparr> = js ''legacy''
   \<and> js ''legacy'' \<noteq> []"
  by (simp add: getSessionId_def or_else_def js_def)

text \<open>
  Claim C9: \<open>getSessionId\<close> never returns the empty identifier; when both fields
  are missing or empty it returns \<open>"unknown"\<close>; and an empty \<open>session_id\<close> is
  treated as absent, so the result is the one the \<open>id\<close> field alone gives.
\<close>

theorem getSessionId_total_nonempty:
  "getSessionId s \<noteq> [] \<and>
   ((session_id s = None \<or> session_id s = Some []) \<and>
    (id_key s = None \<or> id_key s = Some []) \<longrightarrow> getSessionId s = js ''unknown'') \<and>
   (session_id s = Some [] \<longrightarrow>
      getSessionId s = getSessionId (s\<lparr>session_id := None\<rparr>) \<and>
      (\<forall>w. id_key s = Some w \<and> w \<noteq> [] \<longrightarrow> getSessionId s = w))"
  by (auto simp: getSessionId_def or_else_def js_unknown_nonempty
      split: option.splits if_splits)

theorem getSessionId_total_nonempty_witness:
  "session_id \<lparr>session_id = Some [], id_key = Some (js ''legacy''),
      status = None, last_activity = None, agent_id = None\<rparr> = Some []
   \<and> getSessionId \<lparr>session_id = Some [], id_key = Some (js ''legacy''),
      status = None, last_activity = None, agent_id = None\<rparr> = js ''legacy''
   \<and> getSessionId \<lparr>session_id = Some [], id_key = Some (js ''legacy''),
      status = None, last_activity = None, agent_id = None\<rparr> \<noteq> []"
proof -
  let ?s = "\<lparr>session_id = Some [], id_key = Some (js ''legacy''),
      status = None, last_activity = None, agent_id = None\<rparr>"
  have h: "session_id ?s = Some []" by simp
  have k: "id_key ?s = Some (js ''legacy'') \<and> js ''legacy'' \<noteq> []"
    by (simp add: js_def)
  from getSessionId_total_nonempty [of ?s] h k
  have "getSessionId ?s = js ''legacy''" by blast
  with getSessionId_total_nonempty [of ?s] h show ?thesis by simp
qed


section \<open>Properties of trim\<close>

lemma trim_Nil: "trim [] = []" by (simp add: trim_def)

lemma set_trim: "set (trim s) \<subseteq> set s"
proof
  fix x assume "x \<in> set (trim s)"
  then have "x \<in> set (dropWhile isWhiteSpace (rev (dropWhile isWhiteSpace s)))"
    by (simp add: trim_def)
  then have "x \<in> set (rev (dropWhile isWhiteSpace s))" by (rule set_dropWhileD)
  then have "x \<in> set (dropWhile isWhiteSpace s)" by simp
  then show "x \<in> set s" by (rule set_dropWhileD)
qed

lemma trim_hd: "trim s \<noteq> [] \<Longrightarrow> \<not> isWhiteSpace (hd (trim s))"
proof -
  assume ne: "trim s \<noteq> []"
  let ?d = "dropWhile isWhiteSpace s"
  have "?d = [] \<Longrightarrow> trim s = []"
  proof -
    assume e: "?d = []"
    show "trim s = []" unfolding trim_def e by simp
  qed
  with ne have dne: "?d \<noteq> []" by blast
  then have h: "\<not> isWhiteSpace (hd ?d)" by (rule hd_dropWhile)
  have "rev ?d = rev (tl ?d) @ [hd ?d]" using dne by (metis hd_Cons_tl rev.simps(2))
  then have "dropWhile isWhiteSpace (rev ?d) = dropWhile isWhiteSpace (rev (tl ?d)) @ [hd ?d]"
    using h by (simp add: dropWhile_append3)
  then have "trim s = hd ?d # rev (dropWhile isWhiteSpace (rev (tl ?d)))"
    by (simp add: trim_def)
  then show ?thesis using h by simp
qed

lemma trim_last: "trim s \<noteq> [] \<Longrightarrow> \<not> isWhiteSpace (last (trim s))"
proof -
  assume ne: "trim s \<noteq> []"
  let ?r = "dropWhile isWhiteSpace (rev (dropWhile isWhiteSpace s))"
  have rne: "?r \<noteq> []" using ne by (simp add: trim_def)
  then have "\<not> isWhiteSpace (hd ?r)" by (rule hd_dropWhile)
  moreover have "last (trim s) = hd ?r" using rne by (simp add: trim_def last_rev)
  ultimately show ?thesis by simp
qed

lemma trim_fix: "l \<noteq> [] \<Longrightarrow> \<not> isWhiteSpace (hd l) \<Longrightarrow> \<not> isWhiteSpace (last l) \<Longrightarrow> trim l = l"
proof -
  assume a: "l \<noteq> []" "\<not> isWhiteSpace (hd l)" "\<not> isWhiteSpace (last l)"
  then have 1: "dropWhile isWhiteSpace l = l" by (cases l) auto
  have "rev l = rev (butlast l @ [last l])" using a(1) by simp
  then have r: "rev l = last l # rev (butlast l)" by simp
  have "dropWhile isWhiteSpace (rev l) = dropWhile isWhiteSpace (last l # rev (butlast l))"
    using r by (rule arg_cong)
  also have "\<dots> = last l # rev (butlast l)" using a(3) by simp
  also have "\<dots> = rev l" by (rule r[symmetric])
  finally have "dropWhile isWhiteSpace (rev l) = rev l" .
  with 1 show ?thesis by (simp add: trim_def)
qed

lemma trim_idem: "trim (trim s) = trim s"
  by (cases "trim s = []") (simp_all add: trim_Nil trim_fix trim_hd trim_last)

lemma trim_examples:
  "trim (js '''') = []" "trim (js ''   '') = []" "trim (js ''  hello  '') = js ''hello''"
  by (simp_all add: trim_def js_def isWhiteSpace_def)

section \<open>Properties of normalizeProtocolBlock\<close>

lemma LF_neq_CR: "LF \<noteq> CR" by (simp add: LF_def CR_def)

lemma isWhiteSpace_LF: "isWhiteSpace LF" by (simp add: isWhiteSpace_def LF_def)
lemma isWhiteSpace_CR: "isWhiteSpace CR" by (simp add: isWhiteSpace_def CR_def)

lemma split_crlf_nonempty: "split_crlf v \<noteq> []"
  by (induction v rule: split_crlf.induct) (auto simp: neq_Nil_conv elim!: cons_line.elims)

lemma cons_line_set:
  "ls \<noteq> [] \<Longrightarrow> l \<in> set (cons_line c ls) \<Longrightarrow> l = c # hd ls \<or> l \<in> set (tl ls)"
  by (cases ls) auto

lemma split_crlf_no_LF: "l \<in> set (split_crlf v) \<Longrightarrow> LF \<notin> set l"
proof (induction v arbitrary: l rule: split_crlf.induct)
  case 1
  then show ?case by simp
next
  case (2 c)
  then show ?case by (auto split: if_splits)
next
  case (3 c d cs)
  show ?case
  proof (cases "c = CR \<and> d = LF")
    case True
    with 3 show ?thesis by auto
  next
    case False
    note nf = this
    show ?thesis
    proof (cases "c = LF")
      case True
      with nf 3 show ?thesis by (auto simp: LF_neq_CR)
    next
      case False
      with nf "3.prems" have mem: "l \<in> set (cons_line c (split_crlf (d # cs)))"
        by (auto split: if_splits)
      have ne: "split_crlf (d # cs) \<noteq> []" by (rule split_crlf_nonempty)
      from cons_line_set[OF ne mem]
      show ?thesis
      proof
        assume e: "l = c # hd (split_crlf (d # cs))"
        have "hd (split_crlf (d # cs)) \<in> set (split_crlf (d # cs))" using ne by simp
        then have "LF \<notin> set (hd (split_crlf (d # cs)))" using 3(3) nf False by blast
        with e False show ?thesis by auto
      next
        assume "l \<in> set (tl (split_crlf (d # cs)))"
        then have "l \<in> set (split_crlf (d # cs))" using ne by (meson list.set_sel(2))
        then show ?thesis using 3(3) nf False by blast
      qed
    qed
  qed
qed

lemma split_crlf_single: "LF \<notin> set l \<Longrightarrow> split_crlf l = [l]"
  by (induction l rule: split_crlf.induct) auto

lemma split_crlf_LF: "split_crlf (LF # rest) = [] # split_crlf rest"
  by (cases rest) (simp_all add: LF_neq_CR)

lemma split_crlf_line:
  "LF \<notin> set l \<Longrightarrow> l = [] \<or> last l \<noteq> CR \<Longrightarrow>
   split_crlf (l @ LF # rest) = l # split_crlf rest"
proof (induction l)
  case Nil
  then show ?case by (simp add: split_crlf_LF)
next
  case (Cons c l)
  show ?case
  proof (cases l)
    case Nil
    with Cons.prems show ?thesis by (auto simp: split_crlf_LF)
  next
    case (Cons d l')
    with Cons.prems Cons.IH show ?thesis by auto
  qed
qed

lemma split_join_nl:
  "ls \<noteq> [] \<Longrightarrow> \<forall>l\<in>set ls. LF \<notin> set l \<and> l \<noteq> [] \<and> last l \<noteq> CR \<Longrightarrow>
   split_crlf (join_nl ls) = ls"
proof (induction ls rule: join_nl.induct)
  case 1
  then show ?case by simp
next
  case (2 l)
  then show ?case by (simp add: split_crlf_single)
next
  case (3 l m ls)
  then show ?case by (simp add: split_crlf_line)
qed

lemma join_nl_Nil_iff: "\<forall>l\<in>set ls. l \<noteq> [] \<Longrightarrow> join_nl ls = [] \<longleftrightarrow> ls = []"
  by (induction ls rule: join_nl.induct) auto

lemma norm_line_props:
  assumes "l \<in> set (filter (\<lambda>line. line \<noteq> []) (map trim (split_crlf v)))"
  shows "l \<noteq> [] \<and> trim l = l \<and> \<not> isWhiteSpace (hd l) \<and> \<not> isWhiteSpace (last l)
         \<and> LF \<notin> set l"
proof -
  from assms obtain l0 where l0: "l0 \<in> set (split_crlf v)" "l = trim l0" "l \<noteq> []"
    by auto
  have "LF \<notin> set l0" using l0(1) by (rule split_crlf_no_LF)
  then have "LF \<notin> set l" using set_trim[of l0] l0(2) by blast
  moreover have "\<not> isWhiteSpace (hd l)" "\<not> isWhiteSpace (last l)"
    using l0(2,3) trim_hd[of l0] trim_last[of l0] by simp_all
  moreover have "trim l = l" using l0(2) by (simp add: trim_idem)
  ultimately show ?thesis using l0(3) by simp
qed

lemma block_lines_normalize:
  "block_lines (normalizeProtocolBlock v) =
     filter (\<lambda>line. line \<noteq> []) (map trim (split_crlf v))"
proof -
  let ?ls = "filter (\<lambda>line. line \<noteq> []) (map trim (split_crlf v))"
  have ne: "\<forall>l\<in>set ?ls. l \<noteq> []" by simp
  show ?thesis
  proof (cases "?ls = []")
    case True
    then show ?thesis by (simp add: block_lines_def normalizeProtocolBlock_def)
  next
    case False
    have "\<forall>l\<in>set ?ls. LF \<notin> set l \<and> l \<noteq> [] \<and> last l \<noteq> CR"
      using norm_line_props[of _ v] isWhiteSpace_CR by metis
    with False have "split_crlf (join_nl ?ls) = ?ls" by (rule split_join_nl)
    moreover have "join_nl ?ls \<noteq> []" using False join_nl_Nil_iff[OF ne] by simp
    ultimately show ?thesis by (simp add: block_lines_def normalizeProtocolBlock_def)
  qed
qed

lemma normalize_join_block_lines:
  "join_nl (block_lines (normalizeProtocolBlock v)) = normalizeProtocolBlock v"
  by (simp add: block_lines_normalize) (simp add: normalizeProtocolBlock_def)

lemma normalize_idem:
  "normalizeProtocolBlock (normalizeProtocolBlock v) = normalizeProtocolBlock v"
proof -
  let ?ls = "filter (\<lambda>line. line \<noteq> []) (map trim (split_crlf v))"
  let ?out = "normalizeProtocolBlock v"
  show ?thesis
  proof (cases "?out = []")
    case True
    then show ?thesis by (simp add: normalizeProtocolBlock_def trim_Nil)
  next
    case False
    then have sp: "split_crlf ?out = ?ls"
      using block_lines_normalize[of v] by (simp add: block_lines_def)
    have "map trim ?ls = ?ls" using norm_line_props[of _ v] by (intro map_idI) blast
    moreover have "filter (\<lambda>line. line \<noteq> []) ?ls = ?ls" by simp
    ultimately have "filter (\<lambda>line. line \<noteq> []) (map trim (split_crlf ?out)) = ?ls"
      using sp by simp
    then have "normalizeProtocolBlock ?out = join_nl ?ls"
      unfolding normalizeProtocolBlock_def[of ?out] by simp
    then show ?thesis by (simp add: normalizeProtocolBlock_def)
  qed
qed

text \<open>
  Claim C10, as amended: \<open>normalizeProtocolBlock\<close> is idempotent, and its output is
  the input's non-blank lines, each trimmed, joined by single newlines: no line of the
  output is blank, none has leading or trailing whitespace, and so none starts or ends
  with a carriage return.
\<close>

theorem normalizeProtocolBlock_idempotent_lines:
  "normalizeProtocolBlock (normalizeProtocolBlock v) = normalizeProtocolBlock v \<and>
   block_lines (normalizeProtocolBlock v) =
     filter (\<lambda>line. line \<noteq> []) (map trim (split_crlf v)) \<and>
   normalizeProtocolBlock v = join_nl (block_lines (normalizeProtocolBlock v)) \<and>
   (\<forall>l\<in>set (block_lines (normalizeProtocolBlock v)).
      l \<noteq> [] \<and> trim l = l \<and> \<not> isWhiteSpace (hd l) \<and> \<not> isWhiteSpace (last l) \<and>
      LF \<notin> set l \<and> hd l \<noteq> CR \<and> last l \<noteq> CR)"
proof -
  have "\<forall>l\<in>set (block_lines (normalizeProtocolBlock v)).
      l \<noteq> [] \<and> trim l = l \<and> \<not> isWhiteSpace (hd l) \<and> \<not> isWhiteSpace (last l) \<and>
      LF \<notin> set l \<and> hd l \<noteq> CR \<and> last l \<noteq> CR"
    unfolding block_lines_normalize using norm_line_props[of _ v] isWhiteSpace_CR by metis
  then show ?thesis
    using normalize_idem block_lines_normalize normalize_join_block_lines by metis
qed

theorem normalizeProtocolBlock_idempotent_lines_witness:
  "normalizeProtocolBlock (js ''  a '' @ [CR, LF, LF] @ js ''b'' @ [CR] @ js ''c  '' @ [LF])
     = js ''a'' @ [LF] @ js ''b'' @ [CR] @ js ''c''
   \<and> normalizeProtocolBlock (js ''a'' @ [LF] @ js ''b'' @ [CR] @ js ''c'')
     = js ''a'' @ [LF] @ js ''b'' @ [CR] @ js ''c''
   \<and> block_lines (js ''a'' @ [LF] @ js ''b'' @ [CR] @ js ''c'')
     = [js ''a'', js ''b'' @ [CR] @ js ''c'']
   \<and> js ''a'' \<in> set (block_lines (js ''a'' @ [LF] @ js ''b'' @ [CR] @ js ''c''))
   \<and> trim (js ''a'') = js ''a''"
proof -
  let ?v = "js ''  a '' @ [CR, LF, LF] @ js ''b'' @ [CR] @ js ''c  '' @ [LF]"
  let ?out = "js ''a'' @ [LF] @ js ''b'' @ [CR] @ js ''c''"
  have e: "normalizeProtocolBlock ?v = ?out"
    by (simp add: normalizeProtocolBlock_def js_def trim_def isWhiteSpace_def LF_def CR_def)
  have b: "block_lines ?out = [js ''a'', js ''b'' @ [CR] @ js ''c'']"
    by (simp add: block_lines_def js_def LF_def CR_def)
  have m: "js ''a'' \<in> set (block_lines (normalizeProtocolBlock ?v))"
    unfolding e b by simp
  note t = normalizeProtocolBlock_idempotent_lines [of ?v]
  from t have "normalizeProtocolBlock (normalizeProtocolBlock ?v) = normalizeProtocolBlock ?v"
    by (rule conjunct1)
  then have i: "normalizeProtocolBlock ?out = ?out" unfolding e .
  from t m have "trim (js ''a'') = js ''a''" by blast
  with e i b m show ?thesis unfolding e by simp
qed

text \<open>
  Claim C10 as stated fails in one point: a carriage return that is not followed by a
  newline is not a line break and, inside a line, survives normalization.
\<close>

theorem normalizeProtocolBlock_keeps_inner_CR_counterexample:
  "normalizeProtocolBlock (js ''a'' @ [CR] @ js ''b'') = js ''a'' @ [CR] @ js ''b''
   \<and> CR \<in> set (normalizeProtocolBlock (js ''a'' @ [CR] @ js ''b''))"
  by (simp add: normalizeProtocolBlock_def js_def trim_def isWhiteSpace_def LF_def CR_def)

section \<open>Properties of handleSend\<close>

text \<open>
  Claim C2: when the content is empty after trimming, \<open>handleSend\<close> sets the
  validation error and hands no request to the mutation; otherwise the request carries
  the trimmed content. \<open>""\<close> and \<open>"   "\<close> trim to the empty string, and
  \<open>"  hello  "\<close> trims to \<open>"hello"\<close>.
\<close>

theorem handleSend_rejects_blank_and_trims:
  "(trim (content st) = [] \<longrightarrow>
      handleSend sid st =
        (st\<lparr>send_error := Some (js ''Message content is required.'')\<rparr>, None)) \<and>
   (trim (content st) \<noteq> [] \<longrightarrow>
      snd (handleSend sid st) =
        Some \<lparr>sessionId = sid, data_content = trim (content st)\<rparr> \<and>
      send_error (fst (handleSend sid st)) = None) \<and>
   trim (js '''') = [] \<and> trim (js ''   '') = [] \<and> trim (js ''  hello  '') = js ''hello''"
  by (simp add: handleSend_def trim_examples)

theorem handleSend_rejects_blank_and_trims_witness:
  "snd (handleSend (js ''s-1'')
      \<lparr>content = js ''   '', success = False, send_error = None\<rparr>) = None
   \<and> send_error (fst (handleSend (js ''s-1'')
      \<lparr>content = js ''   '', success = False, send_error = None\<rparr>))
     = Some (js ''Message content is required.'')
   \<and> snd (handleSend (js ''s-1'')
      \<lparr>content = js ''  hello  '', success = False, send_error = None\<rparr>)
     = Some \<lparr>sessionId = js ''s-1'', data_content = js ''hello''\<rparr>"
proof -
  let ?blank = "\<lparr>content = js ''   '', success = False, send_error = None\<rparr>"
  let ?hello = "\<lparr>content = js ''  hello  '', success = False, send_error = None\<rparr>"
  have b: "trim (content ?blank) = []" by (simp add: trim_examples)
  have h: "trim (content ?hello) = js ''hello''" "js ''hello'' \<noteq> []"
    by (simp_all add: trim_examples) (simp add: js_def)
  from handleSend_rejects_blank_and_trims [of ?blank "js ''s-1''"] b
  have 1: "handleSend (js ''s-1'') ?blank =
      (?blank\<lparr>send_error := Some (js ''Message content is required.'')\<rparr>, None)"
    by blast
  from handleSend_rejects_blank_and_trims [of ?hello "js ''s-1''"] h
  have 2: "snd (handleSend (js ''s-1'') ?hello) =
      Some \<lparr>sessionId = js ''s-1'', data_content = trim (content ?hello)\<rparr>"
    by metis
  show ?thesis unfolding 1 using 2 h by simp
qed

section \<open>Properties of the template sync dialog\<close>

lemma or_else_Some_nonempty: "d \<noteq> [] \<Longrightarrow> or_else (Some m) d \<noteq> []"
  by (simp add: or_else_def)

lemma sync_step_preserves:
  "at_most_one_set st \<Longrightarrow> at_most_one_set (sync_step gid st ev)"
  by (cases ev)
    (auto simp: at_most_one_set_def handleSync_def onSuccess_def onError_def handleClose_def)

lemma foldl_sync_step_preserves:
  "at_most_one_set st \<Longrightarrow> at_most_one_set (foldl (sync_step gid) st evs)"
  by (induction evs arbitrary: st) (simp_all add: sync_step_preserves)

lemma run_sync_invariant: "at_most_one_set (run_sync gid evs)"
  unfolding run_sync_def
  by (rule foldl_sync_step_preserves) (simp add: at_most_one_set_def initial_sync_state_def)

lemma render_onError:
  "summary_panel (render_sync (onError err st)) = None \<and>
   error_rows (render_sync (onError err st)) = None \<and>
   options_form (render_sync (onError err st)) \<and>
   error_banner (render_sync (onError err st)) =
     Some (if message err = [] then js ''Something went wrong.'' else message err)"
  by (simp add: render_sync_def onError_def or_else_def js_def)

lemma render_onSuccess:
  "resp_status response = 200 \<Longrightarrow>
   summary_panel (render_sync (onSuccess response st)) =
     Some (agents_updated (resp_data response), agents_skipped (resp_data response),
           main_updated (resp_data response)) \<and>
   error_banner (render_sync (onSuccess response st)) = None \<and>
   \<not> options_form (render_sync (onSuccess response st)) \<and>
   (\<forall>es. errors (resp_data response) = Some es \<and> es \<noteq> [] \<longrightarrow>
      error_rows (render_sync (onSuccess response st)) =
        Some (map (\<lambda>e. (entry_agent_id e, entry_error e)) es))"
  by (simp add: render_sync_def onSuccess_def)

text \<open>
  Claim C4: the result and the error of the template sync dialog are never both set.
  The invariant holds after every sequence of events from the initial state, is kept
  by every event, and is established outright by sync start, sync failure, dialog close
  and a sync success with status 200. After a whole-operation failure the dialog shows
  the error banner and neither the summary nor per-agent rows; after a success it
  shows the summary, no banner, and one row for each entry of a non-empty error list.
\<close>

theorem sync_result_error_exclusive:
  "at_most_one_set (run_sync gid evs) \<and>
   (at_most_one_set st \<longrightarrow> at_most_one_set (sync_step gid st ev)) \<and>
   at_most_one_set (fst (handleSync gid st)) \<and>
   at_most_one_set (onError err st) \<and>
   at_most_one_set (handleClose st) \<and>
   (resp_status response = 200 \<longrightarrow> at_most_one_set (onSuccess response st)) \<and>
   summary_panel (render_sync (onError err st)) = None \<and>
   error_rows (render_sync (onError err st)) = None \<and>
   error_banner (render_sync (onError err st)) =
     Some (if message err = [] then js ''Something went wrong.'' else message err) \<and>
   (resp_status response = 200 \<longrightarrow>
      summary_panel (render_sync (onSuccess response st)) =
        Some (agents_updated (resp_data response), agents_skipped (resp_data response),
              main_updated (resp_data response)) \<and>
      error_banner (render_sync (onSuccess response st)) = None \<and>
      (\<forall>es. errors (resp_data response) = Some es \<and> es \<noteq> [] \<longrightarrow>
         error_rows (render_sync (onSuccess response st)) =
           Some (map (\<lambda>e. (entry_agent_id e, entry_error e)) es)))"
proof -
  have "at_most_one_set (fst (handleSync gid st))"
    "at_most_one_set (onError err st)" "at_most_one_set (handleClose st)"
    "resp_status response = 200 \<longrightarrow> at_most_one_set (onSuccess response st)"
    by (simp_all add: at_most_one_set_def handleSync_def onError_def handleClose_def
        onSuccess_def)
  then show ?thesis
    using run_sync_invariant[of gid evs] sync_step_preserves[of st gid ev]
      render_onError[of err st] render_onSuccess[of response st]
    by simp
qed

theorem sync_result_error_exclusive_witness:
  "at_most_one_set initial_sync_state
   \<and> at_most_one_set (sync_step (js ''gw'') initial_sync_state (OnError \<lparr>message = []\<rparr>))
   \<and> at_most_one_set (run_sync (js ''gw'')
        [HandleSync, OnError \<lparr>message = []\<rparr>, HandleSync,
         OnSuccess \<lparr>resp_status = 200, resp_data = \<lparr>agents_updated = 4, agents_skipped = 0,
           main_updated = True,
           errors = Some [\<lparr>entry_agent_id = js ''a3'', entry_error = js ''boom''\<rparr>]\<rparr>\<rparr>])
   \<and> summary_panel (render_sync (onSuccess
         \<lparr>resp_status = 200, resp_data = \<lparr>agents_updated = 4, agents_skipped = 0,
           main_updated = True,
           errors = Some [\<lparr>entry_agent_id = js ''a3'', entry_error = js ''boom''\<rparr>]\<rparr>\<rparr>
         initial_sync_state)) = Some (4, 0, True)
   \<and> error_rows (render_sync (onSuccess
         \<lparr>resp_status = 200, resp_data = \<lparr>agents_updated = 4, agents_skipped = 0,
           main_updated = True,
           errors = Some [\<lparr>entry_agent_id = js ''a3'', entry_error = js ''boom''\<rparr>]\<rparr>\<rparr>
         initial_sync_state)) = Some [(js ''a3'', js ''boom'')]
   \<and> error_banner (render_sync (onError \<lparr>message = []\<rparr> initial_sync_state))
       = Some (js ''Something went wrong.'')"
proof -
  let ?res = "\<lparr>agents_updated = 4, agents_skipped = 0, main_updated = True,
      errors = Some [\<lparr>entry_agent_id = js ''a3'', entry_error = js ''boom''\<rparr>]\<rparr>"
  let ?R = "\<lparr>resp_status = 200, resp_data = ?res\<rparr>"
  let ?err = "\<lparr>message = []\<rparr> :: ApiError"
  let ?evs = "[HandleSync, OnError ?err, HandleSync, OnSuccess ?R]"
  have i: "at_most_one_set initial_sync_state"
    by (simp add: at_most_one_set_def initial_sync_state_def)
  have s: "resp_status ?R = 200" by simp
  have e: "errors (resp_data ?R) =
      Some [\<lparr>entry_agent_id = js ''a3'', entry_error = js ''boom''\<rparr>] \<and>
      [\<lparr>entry_agent_id = js ''a3'', entry_error = js ''boom''\<rparr>] \<noteq> []" by simp
  note t = sync_result_error_exclusive
    [of "js ''gw''" ?evs initial_sync_state "OnError ?err" ?err ?R]
  from t i have 1: "at_most_one_set (sync_step (js ''gw'') initial_sync_state (OnError ?err))"
    by blast
  from t have 2: "at_most_one_set (run_sync (js ''gw'') ?evs)" by blast
  from t s have 3: "summary_panel (render_sync (onSuccess ?R initial_sync_state)) =
      Some (agents_updated (resp_data ?R), agents_skipped (resp_data ?R),
            main_updated (resp_data ?R))" by blast
  from t s e have 4: "error_rows (render_sync (onSuccess ?R initial_sync_state)) =
      Some (map (\<lambda>e. (entry_agent_id e, entry_error e))
        [\<lparr>entry_agent_id = js ''a3'', entry_error = js ''boom''\<rparr>])" by blast
  from t have 5: "error_banner (render_sync (onError ?err initial_sync_state)) =
     Some (if message ?err = [] then js ''Something went wrong.'' else message ?err)"
    by blast
  from i 1 2 3 4 5 show ?thesis by simp
qed

section \<open>Properties of the template sync orchestration\<close>

lemma record_outcome_fields:
  "agents_updated (record_outcome r a out) =
     agents_updated r + (if out = Updated then 1 else 0)"
  "agents_skipped (record_outcome r a out) =
     agents_skipped r + (if out = Skipped then 1 else 0)"
  "main_updated (record_outcome r a out) = main_updated r"
  by (cases out; simp add: add_error_def)+

lemma sync_agents_counts:
  "agents_updated (sync_agents push as r) =
     agents_updated r + length (filter (\<lambda>a. push a = Updated) as) \<and>
   agents_skipped (sync_agents push as r) =
     agents_skipped r + length (filter (\<lambda>a. push a = Skipped) as) \<and>
   main_updated (sync_agents push as r) = main_updated r"
  by (induction as arbitrary: r) (simp_all add: record_outcome_fields)

lemma sync_agents_errors:
  "errors r = Some es \<Longrightarrow>
   errors (sync_agents push as r) = Some (es @ failure_entries push as)"
proof (induction as arbitrary: r es)
  case Nil
  then show ?case by simp
next
  case (Cons a as)
  show ?case
  proof (cases "push a")
    case (Failed msg)
    with Cons.prems have
      "errors (record_outcome r a (push a)) =
         Some (es @ [\<lparr>entry_agent_id = agent_ident a, entry_error = msg\<rparr>])"
      by (simp add: add_error_def)
    from Cons.IH[OF this] Failed show ?thesis by simp
  next
    case Updated
    with Cons.prems have "errors (record_outcome r a (push a)) = Some es"
      by simp
    from Cons.IH[OF this] Updated show ?thesis by simp
  next
    case Skipped
    with Cons.prems have "errors (record_outcome r a (push a)) = Some es"
      by simp
    from Cons.IH[OF this] Skipped show ?thesis by simp
  qed
qed

lemma outcome_partition:
  "length (filter (\<lambda>a. push a = Updated) as) + length (filter (\<lambda>a. push a = Skipped) as) +
   length (failure_entries push as) = length as"
  by (induction as) (auto split: agent_outcome.splits)

lemma failure_entries_append:
  "failure_entries push (xs @ ys) = failure_entries push xs @ failure_entries push ys"
  by (induction xs) (auto split: agent_outcome.splits)

text \<open>
  Claim C3: a run of \<open>syncTemplates\<close> over a connected gateway always returns a
  success result, whatever the agents answer. Its error list holds one entry, agent id
  and message, for each failing candidate, in candidate order; the agents after a
  failing one are still processed; the counts of updated and skipped agents and the
  number of error entries add up to the number of candidates. With five candidates of
  which one fails and none is skipped, the result has \<open>agents_updated = 4\<close> and exactly
  one error entry.
\<close>

theorem syncTemplates_partial_failure:
  "\<exists>r. syncTemplates True push push_main ags p = Inr r \<and>
       errors r = Some (failure_entries (push p) (candidates p ags)) \<and>
       agents_updated r = length (filter (\<lambda>a. push p a = Updated) (candidates p ags)) \<and>
       agents_skipped r = length (filter (\<lambda>a. push p a = Skipped) (candidates p ags)) \<and>
       main_updated r = (include_main p \<and> push_main p) \<and>
       agents_updated r + agents_skipped r +
         length (failure_entries (push p) (candidates p ags)) = length (candidates p ags) \<and>
       (length (candidates p ags) = 5 \<and> agents_skipped r = 0 \<and>
        length (failure_entries (push p) (candidates p ags)) = 1 \<longrightarrow>
          agents_updated r = 4) \<and>
       (\<forall>xs a ys msg. candidates p ags = xs @ a # ys \<and> push p a = Failed msg \<longrightarrow>
          failure_entries (push p) (candidates p ags) =
            failure_entries (push p) xs @
            \<lparr>entry_agent_id = agent_ident a, entry_error = msg\<rparr> #
            failure_entries (push p) ys)"
proof -
  let ?init = "\<lparr>agents_updated = 0, agents_skipped = 0,
              main_updated = (include_main p \<and> push_main p),
              errors = Some []\<rparr>"
  let ?r = "sync_agents (push p) (candidates p ags) ?init"
  have 1: "syncTemplates True push push_main ags p = Inr ?r"
    by (simp add: syncTemplates_def)
  have z: "errors ?init = Some []" by simp
  have 2: "errors ?r = Some (failure_entries (push p) (candidates p ags))"
    by (rule sync_agents_errors[OF z, simplified])
  have 3: "agents_updated ?r = length (filter (\<lambda>a. push p a = Updated) (candidates p ags))"
    "agents_skipped ?r = length (filter (\<lambda>a. push p a = Skipped) (candidates p ags))"
    "main_updated ?r = (include_main p \<and> push_main p)"
    using sync_agents_counts[where push = "push p" and as = "candidates p ags" and r = ?init]
    by simp_all
  have 4: "agents_updated ?r + agents_skipped ?r +
         length (failure_entries (push p) (candidates p ags)) = length (candidates p ags)"
    unfolding 3 by (rule outcome_partition)
  have 5: "\<forall>xs a ys msg. candidates p ags = xs @ a # ys \<and> push p a = Failed msg \<longrightarrow>
          failure_entries (push p) (candidates p ags) =
            failure_entries (push p) xs @
            \<lparr>entry_agent_id = agent_ident a, entry_error = msg\<rparr> #
            failure_entries (push p) ys"
    by (auto simp: failure_entries_append)
  from 4 have 6: "length (candidates p ags) = 5 \<and> agents_skipped ?r = 0 \<and>
        length (failure_entries (push p) (candidates p ags)) = 1 \<longrightarrow>
          agents_updated ?r = 4" by arith
  from 1 2 3 4 5 6 show ?thesis by blast
qed

theorem syncTemplates_partial_failure_witness:
  "syncTemplates True
     (\<lambda>p a. if agent_ident a = js ''a3'' then Failed (js ''boom'') else Updated)
     (\<lambda>p. True)
     (map (\<lambda>n. \<lparr>agent_ident = js n, agent_board = js ''b1'', agent_is_lead = False\<rparr>)
        [''a1'', ''a2'', ''a3'', ''a4'', ''a5''])
     \<lparr>include_main = True, lead_only = False, reset_sessions = False,
      rotate_tokens = False, force_bootstrap = False, overwrite_p = False,
      board_id = None\<rparr>
   = Inr \<lparr>agents_updated = 4, agents_skipped = 0, main_updated = True,
      errors = Some [\<lparr>entry_agent_id = js ''a3'', entry_error = js ''boom''\<rparr>]\<rparr>
   \<and> failure_entries (\<lambda>a. if agent_ident a = js ''a3'' then Failed (js ''boom'') else Updated)
       (candidates \<lparr>include_main = True, lead_only = False, reset_sessions = False,
          rotate_tokens = False, force_bootstrap = False, overwrite_p = False,
          board_id = None\<rparr>
        (map (\<lambda>n. \<lparr>agent_ident = js n, agent_board = js ''b1'', agent_is_lead = False\<rparr>)
          [''a1'', ''a2'', ''a3'', ''a4'', ''a5'']))
     = [\<lparr>entry_agent_id = js ''a3'', entry_error = js ''boom''\<rparr>]"
proof -
  let ?push = "\<lambda>(p::sync_params) a.
      if agent_ident a = js ''a3'' then Failed (js ''boom'') else Updated"
  let ?ags = "map (\<lambda>n. \<lparr>agent_ident = js n, agent_board = js ''b1'', agent_is_lead = False\<rparr>)
        [''a1'', ''a2'', ''a3'', ''a4'', ''a5'']"
  let ?p = "\<lparr>include_main = True, lead_only = False, reset_sessions = False,
      rotate_tokens = False, force_bootstrap = False, overwrite_p = False,
      board_id = None\<rparr>"
  let ?out = "\<lparr>agents_updated = 4, agents_skipped = 0, main_updated = True,
      errors = Some [\<lparr>entry_agent_id = js ''a3'', entry_error = js ''boom''\<rparr>]\<rparr>"
  have ev: "syncTemplates True ?push (\<lambda>p. True) ?ags ?p = Inr ?out"
    by (simp add: syncTemplates_def candidates_def add_error_def js_def)
  from syncTemplates_partial_failure [of ?push "\<lambda>p. True" ?ags ?p]
  obtain r where r: "syncTemplates True ?push (\<lambda>p. True) ?ags ?p = Inr r"
    "errors r = Some (failure_entries (?push ?p) (candidates ?p ?ags))"
    by blast
  from r(1) ev have "r = ?out" by simp
  with r(2) have "failure_entries (?push ?p) (candidates ?p ?ags) =
      [\<lparr>entry_agent_id = js ''a3'', entry_error = js ''boom''\<rparr>]" by simp
  with ev show ?thesis by simp
qed

section \<open>Properties of the history store and the history dialog\<close>






lemma sorted_evict:
  "sorted (map key l) \<Longrightarrow> sorted (map key (evict cap l))"
  unfolding evict_def drop_map[symmetric] by (rule sorted_wrt_drop)

lemma render_settled_events:
  "render_history fmt (settle_history describe (Inr evs)) =
     (if evs = [] then NoHistory (js ''No history events found.'')
      else HistoryRows (map (event_row_of fmt) evs))"
  by (simp add: render_history_def settle_history_def history_of_def)

lemma render_settled_error:
  "render_history fmt (settle_history describe (Inl e)) = HistoryError (describe e)"
  by (simp add: render_history_def settle_history_def)

text \<open>
  Claim C6: for a session without a record \<open>getHistory\<close> fails with
  \<open>SessionNotFoundError\<close> and the dialog renders the error message; for a session
  with a record and no events it returns the empty sequence and the dialog renders
  "No history events found.". The store before any frame has no record of a session;
  after the session's lifecycle frame it has an empty one.
\<close>

theorem getHistory_unknown_vs_empty:
  "(st sid = None \<longrightarrow>
      getHistory st sid = Inl SessionNotFoundError \<and>
      render_history fmt (settle_history describe (getHistory st sid)) =
        HistoryError (describe SessionNotFoundError)) \<and>
   (st sid = Some [] \<longrightarrow>
      getHistory st sid = Inr [] \<and>
      render_history fmt (settle_history describe (getHistory st sid)) =
        NoHistory (js ''No history events found.'')) \<and>
   getHistory (foldl (onFrame cap) Map.empty []) sid = Inl SessionNotFoundError \<and>
   getHistory (foldl (onFrame cap) Map.empty [Lifecycle sid]) sid = Inr []"
  by (simp add: getHistory_def render_settled_events render_settled_error)

theorem getHistory_unknown_vs_empty_witness:
  "(Map.empty(js ''s-1'' \<mapsto> [])) (js ''s-2'') = (None :: HistoryEvent list option)
   \<and> getHistory (Map.empty(js ''s-1'' \<mapsto> [])) (js ''s-2'') = Inl SessionNotFoundError
   \<and> render_history (\<lambda>t. t) (settle_history (\<lambda>e. js ''Session not found.'')
        (getHistory (Map.empty(js ''s-1'' \<mapsto> [])) (js ''s-2'')))
      = HistoryError (js ''Session not found.'')
   \<and> (Map.empty(js ''s-1'' \<mapsto> [])) (js ''s-1'') = Some ([] :: HistoryEvent list)
   \<and> getHistory (Map.empty(js ''s-1'' \<mapsto> [])) (js ''s-1'') = Inr []
   \<and> render_history (\<lambda>t. t) (settle_history (\<lambda>e. js ''Session not found.'')
        (getHistory (Map.empty(js ''s-1'' \<mapsto> [])) (js ''s-1'')))
      = NoHistory (js ''No history events found.'')"
proof -
  let ?st = "Map.empty(js ''s-1'' \<mapsto> []) :: history_store"
  have u: "?st (js ''s-2'') = None" by (simp add: js_def)
  have k: "?st (js ''s-1'') = Some []" by simp
  from getHistory_unknown_vs_empty
    [of ?st "js ''s-2''" "\<lambda>t. t" "\<lambda>e. js ''Session not found.''"] u
  have 1: "getHistory ?st (js ''s-2'') = Inl SessionNotFoundError \<and>
      render_history (\<lambda>t. t) (settle_history (\<lambda>e. js ''Session not found.'')
        (getHistory ?st (js ''s-2''))) = HistoryError (js ''Session not found.'')"
    by blast
  from getHistory_unknown_vs_empty
    [of ?st "js ''s-1''" "\<lambda>t. t" "\<lambda>e. js ''Session not found.''"] k
  have 2: "getHistory ?st (js ''s-1'') = Inr [] \<and>
      render_history (\<lambda>t. t) (settle_history (\<lambda>e. js ''Session not found.'')
        (getHistory ?st (js ''s-1''))) = NoHistory (js ''No history events found.'')"
    by blast
  from u k 1 2 show ?thesis by blast
qed





section \<open>Properties of the gateway URL validator\<close>

lemma span_unique:
  "\<forall>x\<in>set a. P x \<Longrightarrow> (case b of [] \<Rightarrow> True | c # cs \<Rightarrow> \<not> P c) \<Longrightarrow>
   takeWhile P (a @ b) = a \<and> dropWhile P (a @ b) = b"
  by (cases b) simp_all

lemma dropWhile_Cons_D: "dropWhile P xs = c # cs \<Longrightarrow> \<not> P c"
  using hd_dropWhile[of P xs] by simp

lemma url_tail_dropWhile: "url_tail (dropWhile (\<lambda>c. \<not> is_delim c) xs)"
proof (cases "dropWhile (\<lambda>c. \<not> is_delim c) xs")
  case Nil
  show ?thesis unfolding url_tail_def Nil by simp
next
  case (Cons c cs)
  from dropWhile_Cons_D[OF this] show ?thesis unfolding url_tail_def Cons by simp
qed

lemma slash_is_delim: "is_slash c \<Longrightarrow> is_delim c"
  by (auto simp: is_slash_def is_delim_def)

lemma delim_forbidden: "is_delim c \<Longrightarrow> forbidden_host c"
  by (auto simp: is_delim_def forbidden_host_def slash_def backslash_def)

lemma delim_not_hex: "is_delim c \<Longrightarrow> \<not> is_hex c \<and> c \<noteq> percent \<and> c \<noteq> colon \<and>
    c \<noteq> lbracket \<and> c \<noteq> rbracket \<and> c \<noteq> at_sign \<and> \<not> is_digit c"
  by (auto simp: is_delim_def is_hex_def is_digit_def slash_def backslash_def percent_def
      colon_def lbracket_def rbracket_def at_sign_def)

lemma special_forbidden:
  "forbidden_host colon" "forbidden_host at_sign" "forbidden_host lbracket"
  "forbidden_host rbracket"
  by (simp_all add: forbidden_host_def colon_def at_sign_def lbracket_def rbracket_def)

lemma special_not_hex:
  "\<not> is_hex colon" "\<not> is_hex at_sign" "\<not> is_hex lbracket" "\<not> is_hex rbracket"
  "colon \<noteq> percent" "at_sign \<noteq> percent" "lbracket \<noteq> percent" "rbracket \<noteq> percent"
  by (simp_all add: is_hex_def is_digit_def colon_def at_sign_def lbracket_def rbracket_def
      percent_def)

lemma special_distinct:
  "colon \<noteq> at_sign" "colon \<noteq> lbracket" "colon \<noteq> rbracket" "lbracket \<noteq> rbracket"
  "at_sign \<noteq> lbracket" "at_sign \<noteq> rbracket" "\<not> is_delim colon" "\<not> is_delim at_sign"
  "\<not> is_delim lbracket" "\<not> is_delim rbracket" "\<not> is_slash colon" "\<not> is_slash at_sign"
  "\<not> is_slash lbracket"
  by (simp_all add: colon_def at_sign_def lbracket_def rbracket_def is_delim_def is_slash_def
      slash_def backslash_def)

lemma digit_plain: "is_digit c \<Longrightarrow> \<not> is_delim c \<and> c \<noteq> colon \<and> c \<noteq> at_sign"
  by (auto simp: is_digit_def is_delim_def colon_def at_sign_def slash_def backslash_def)

lemma hex_plain: "is_hex c \<Longrightarrow> \<not> is_delim c \<and> c \<noteq> at_sign \<and> c \<noteq> lbracket \<and> c \<noteq> rbracket"
  by (auto simp: is_hex_def is_digit_def is_delim_def at_sign_def lbracket_def rbracket_def
      slash_def backslash_def)

lemma percent_decode_keeps:
  "c \<in> set h \<Longrightarrow> \<not> is_hex c \<Longrightarrow> c \<noteq> percent \<Longrightarrow> c \<in> set (percent_decode h)"
proof (induction h rule: percent_decode.induct)
  case (1 x a b cs)
  then show ?case by (auto split: if_splits)
qed simp_all

lemma domain_ok_chars:
  assumes "domain_ok h" "c \<in> set h" "forbidden_host c" "\<not> is_hex c" "c \<noteq> percent"
  shows False
proof -
  from assms(2,4,5) have "c \<in> set (percent_decode h)" by (rule percent_decode_keeps)
  moreover from assms(1) have "list_all (\<lambda>c. \<not> forbidden_host c) (percent_decode h)"
    by (simp add: domain_ok_def Let_def)
  ultimately show False using assms(3) by (simp add: list_all_iff)
qed

lemma domain_ok_nonempty: "domain_ok h \<Longrightarrow> h \<noteq> []"
  by (auto simp: domain_ok_def Let_def)

lemma ipv6_scan_chars:
  "ipv6_scan idx cmpr st cs \<Longrightarrow> \<forall>c\<in>set cs. is_hex c \<or> c = colon"
  by (induction idx cmpr st cs rule: ipv6_scan.induct) (auto split: if_splits)

lemma ipv6_ok_chars: "ipv6_ok inner \<Longrightarrow> \<forall>c\<in>set inner. is_hex c \<or> c = colon"
  using ipv6_scan_chars
  by (fastforce simp: ipv6_ok_def split: list.splits if_splits)

lemma valid_host_cases:
  assumes "valid_host h"
  shows "(\<exists>inner. h = lbracket # inner @ [rbracket] \<and> ipv6_ok inner) \<or>
         (h \<noteq> [] \<and> hd h \<noteq> lbracket \<and> domain_ok h)"
proof (cases h)
  case Nil
  with assms show ?thesis by (simp add: valid_host_def)
next
  case (Cons c cs)
  show ?thesis
  proof (cases "c = lbracket")
    case True
    with assms Cons obtain b ri where r: "rev cs = b # ri" "b = rbracket" "ipv6_ok (rev ri)"
      by (auto simp: valid_host_def split: list.splits)
    from r(1) have "cs = rev ri @ [b]" by (metis rev.simps(2) rev_rev_ident)
    with r Cons True show ?thesis by auto
  next
    case False
    with assms Cons show ?thesis by (simp add: valid_host_def)
  qed
qed

lemma valid_host_bracket:
  "ipv6_ok inner \<Longrightarrow> valid_host (lbracket # inner @ [rbracket])"
  by (simp add: valid_host_def)

lemma valid_host_nonempty: "valid_host h \<Longrightarrow> h \<noteq> []"
  by (auto simp: valid_host_def)

lemma valid_host_chars:
  assumes "valid_host h" "c \<in> set h"
  shows "\<not> is_delim c \<and> c \<noteq> at_sign"
  using valid_host_cases[OF assms(1)]
proof
  assume "\<exists>inner. h = lbracket # inner @ [rbracket] \<and> ipv6_ok inner"
  then obtain inner where i: "h = lbracket # inner @ [rbracket]" "ipv6_ok inner" by blast
  from assms(2) i(1) have "c = lbracket \<or> c = rbracket \<or> c \<in> set inner" by auto
  then show ?thesis
    using ipv6_ok_chars[OF i(2)] hex_plain special_distinct by metis
next
  assume d: "h \<noteq> [] \<and> hd h \<noteq> lbracket \<and> domain_ok h"
  show ?thesis
  proof (rule ccontr)
    assume "\<not> (\<not> is_delim c \<and> c \<noteq> at_sign)"
    then have "forbidden_host c \<and> \<not> is_hex c \<and> c \<noteq> percent"
      using delim_forbidden delim_not_hex special_forbidden special_not_hex by auto
    with domain_ok_chars[of h c] d assms(2) show False by blast
  qed
qed

lemma domain_plain:
  assumes "domain_ok h" "c \<in> set h"
  shows "c \<noteq> colon \<and> c \<noteq> lbracket \<and> c \<noteq> rbracket"
proof (rule ccontr)
  assume "\<not> (c \<noteq> colon \<and> c \<noteq> lbracket \<and> c \<noteq> rbracket)"
  then have "forbidden_host c \<and> \<not> is_hex c \<and> c \<noteq> percent"
    using special_forbidden special_not_hex by auto
  with domain_ok_chars[of h c] assms show False by blast
qed

lemma scan_host_append:
  "scan_host inside hp = (h, r) \<Longrightarrow> hp = h @ r \<and> (r = [] \<or> hd r = colon)"
proof (induction inside hp arbitrary: h r rule: scan_host.induct)
  case (1 inside)
  then show ?case by simp
next
  case (2 inside c cs)
  show ?case
  proof (cases "c = colon \<and> \<not> inside")
    case True
    with 2 show ?thesis by auto
  next
    case False
    let ?i = "if c = lbracket then True else if c = rbracket then False else inside"
    obtain h' r' where s: "scan_host ?i cs = (h', r')" by (cases "scan_host ?i cs")
    from "2.IH"[OF False s] have "cs = h' @ r' \<and> (r' = [] \<or> hd r' = colon)" .
    moreover from "2.prems" False s have "h = c # h'" "r = r'" by auto
    ultimately show ?thesis by simp
  qed
qed

lemma scan_host_plain:
  "\<forall>c\<in>set h. c \<noteq> colon \<and> c \<noteq> lbracket \<and> c \<noteq> rbracket \<Longrightarrow> r = [] \<or> hd r = colon \<Longrightarrow>
   scan_host False (h @ r) = (h, r)"
proof (induction h)
  case Nil
  then show ?case by (cases r) auto
next
  case (Cons c h)
  then show ?case by simp
qed

lemma scan_host_inside:
  "\<forall>c\<in>set inner. c \<noteq> lbracket \<and> c \<noteq> rbracket \<Longrightarrow> r = [] \<or> hd r = colon \<Longrightarrow>
   scan_host True (inner @ rbracket # r) = (inner @ [rbracket], r)"
proof (induction inner)
  case Nil
  have "scan_host False r = ([], r)" using Nil(2) by (cases r) auto
  then show ?case using special_distinct by simp
next
  case (Cons c inner)
  then show ?case by simp
qed

lemma scan_host_valid:
  assumes "valid_host h" "r = [] \<or> hd r = colon"
  shows "scan_host False (h @ r) = (h, r)"
  using valid_host_cases[OF assms(1)]
proof
  assume "\<exists>inner. h = lbracket # inner @ [rbracket] \<and> ipv6_ok inner"
  then obtain inner where i: "h = lbracket # inner @ [rbracket]" "ipv6_ok inner" by blast
  have "\<forall>c\<in>set inner. c \<noteq> lbracket \<and> c \<noteq> rbracket"
    using ipv6_ok_chars[OF i(2)] hex_plain special_distinct by metis
  from scan_host_inside[OF this assms(2)] show ?thesis
    unfolding i(1) using special_distinct by simp
next
  assume d: "h \<noteq> [] \<and> hd h \<noteq> lbracket \<and> domain_ok h"
  then have "\<forall>c\<in>set h. c \<noteq> colon \<and> c \<noteq> lbracket \<and> c \<noteq> rbracket"
    using domain_plain by blast
  from scan_host_plain[OF this assms(2)] show ?thesis .
qed

lemma host_port_text_unique:
  assumes "at_sign \<notin> set hp" "pre = [] \<or> last pre = at_sign"
  shows "host_port_text (pre @ hp) = hp"
proof -
  have a: "\<forall>x\<in>set (rev hp). x \<noteq> at_sign" using assms(1) by auto
  have b: "case rev pre of [] \<Rightarrow> True | c # cs \<Rightarrow> \<not> c \<noteq> at_sign"
  proof (cases pre rule: rev_cases)
    case Nil
    then show ?thesis by simp
  next
    case (snoc ys y)
    with assms(2) show ?thesis by simp
  qed
  from span_unique[OF a b] have "takeWhile (\<lambda>c. c \<noteq> at_sign) (rev hp @ rev pre) = rev hp"
    by blast
  then show ?thesis by (simp add: host_port_text_def)
qed

lemma host_port_text_split:
  "\<exists>pre. auth = pre @ host_port_text auth \<and> (pre = [] \<or> last pre = at_sign) \<and>
     at_sign \<notin> set (host_port_text auth)"
proof -
  let ?P = "\<lambda>c. c \<noteq> at_sign"
  let ?t = "takeWhile ?P (rev auth)"
  let ?d = "dropWhile ?P (rev auth)"
  have 1: "?t @ ?d = rev auth" by (rule takeWhile_dropWhile_id)
  have "auth = rev (?t @ ?d)" unfolding 1 by simp
  then have 2: "auth = rev ?d @ host_port_text auth"
    by (simp only: rev_append host_port_text_def)
  have 3: "rev ?d = [] \<or> last (rev ?d) = at_sign"
  proof (cases ?d)
    case Nil
    then show ?thesis by simp
  next
    case (Cons c cs)
    from dropWhile_Cons_D[OF this] have "c = at_sign" by simp
    then show ?thesis unfolding Cons by simp
  qed
  have 4: "at_sign \<notin> set (host_port_text auth)"
    unfolding host_port_text_def using set_takeWhileD by fastforce
  from 2 3 4 show ?thesis by blast
qed

lemma authority_text_unique:
  assumes "list_all is_slash sl" "a \<noteq> []" "\<forall>c\<in>set a. \<not> is_delim c" "url_tail tail"
  shows "authority_text (sl @ a @ tail) = a"
proof -
  obtain c cs where a: "a = c # cs" using assms(2) by (cases a) auto
  have "\<not> is_slash c" using assms(3) a slash_is_delim by auto
  then have b: "case a @ tail of [] \<Rightarrow> True | c # cs \<Rightarrow> \<not> is_slash c" using a by simp
  have s: "\<forall>x\<in>set sl. is_slash x" using assms(1) by (simp add: list_all_iff)
  from span_unique[OF s b] have 1: "dropWhile is_slash (sl @ a @ tail) = a @ tail" by blast
  have t: "case tail of [] \<Rightarrow> True | c # cs \<Rightarrow> \<not> \<not> is_delim c"
    using assms(4) by (simp add: url_tail_def split: list.splits)
  from span_unique[OF assms(3) t] have "takeWhile (\<lambda>c. \<not> is_delim c) (a @ tail) = a" by blast
  with 1 show ?thesis by (simp add: authority_text_def)
qed

lemma authority_text_split:
  "\<exists>sl tail. after = sl @ authority_text after @ tail \<and> list_all is_slash sl \<and>
     url_tail tail \<and> (\<forall>c\<in>set (authority_text after). \<not> is_delim c)"
proof -
  let ?sl = "takeWhile is_slash after"
  let ?r = "dropWhile is_slash after"
  let ?tail = "dropWhile (\<lambda>c. \<not> is_delim c) ?r"
  have 1: "?sl @ ?r = after" by (rule takeWhile_dropWhile_id)
  have 2: "authority_text after @ ?tail = ?r"
    unfolding authority_text_def by (rule takeWhile_dropWhile_id)
  have 3: "list_all is_slash ?sl" unfolding list_all_iff using set_takeWhileD by fastforce
  have 4: "url_tail ?tail" by (rule url_tail_dropWhile)
  have 5: "\<forall>c\<in>set (authority_text after). \<not> is_delim c"
    unfolding authority_text_def using set_takeWhileD by fastforce
  from 1 2 have "after = ?sl @ authority_text after @ ?tail" by simp
  with 3 4 5 show ?thesis by blast
qed

lemma parse_port_iff:
  assumes "r = [] \<or> hd r = colon"
  shows "parse_port r = Some port \<longleftrightarrow>
     r = (case port of None \<Rightarrow> [] | Some ds \<Rightarrow> colon # ds) \<and>
     (case port of None \<Rightarrow> True | Some ds \<Rightarrow> list_all is_digit ds \<and> port_value ds \<le> 65535)"
proof (cases r)
  case Nil
  then show ?thesis by (cases port) (auto simp: parse_port_def)
next
  case (Cons k ds)
  with assms have "k = colon" by simp
  with Cons show ?thesis by (cases port) (auto simp: parse_port_def)
qed

lemma url_authority_complete:
  assumes wf: "authority_well_formed p"
  shows "url_authority (authority_spelling p) = Some (host_part p, port_part p)"
proof -
  let ?ui = "case userinfo_part p of None \<Rightarrow> [] | Some u \<Rightarrow> u @ [at_sign]"
  let ?pt = "case port_part p of None \<Rightarrow> [] | Some ds \<Rightarrow> colon # ds"
  let ?hp = "host_part p @ ?pt"
  let ?a = "?ui @ ?hp"
  from wf have sl: "list_all is_slash (slashes_part p)"
    and ui: "case userinfo_part p of None \<Rightarrow> True | Some u \<Rightarrow> list_all (\<lambda>c. \<not> is_delim c) u"
    and vh: "valid_host (host_part p)"
    and po: "case port_part p of None \<Rightarrow> True
             | Some ds \<Rightarrow> list_all is_digit ds \<and> port_value ds \<le> 65535"
    and tl: "url_tail (tail_part p)"
    by (simp_all add: authority_well_formed_def)
  have pt_chars: "\<forall>c\<in>set ?pt. \<not> is_delim c \<and> c \<noteq> at_sign"
    using po special_distinct digit_plain
    by (auto simp: list_all_iff split: option.splits)
  have hp_chars: "\<forall>c\<in>set ?hp. \<not> is_delim c \<and> c \<noteq> at_sign"
    using pt_chars valid_host_chars[OF vh] by auto
  have ui_chars: "\<forall>c\<in>set ?ui. \<not> is_delim c"
    using ui special_distinct by (auto simp: list_all_iff split: option.splits)
  have a_ne: "?a \<noteq> []" using valid_host_nonempty[OF vh] by simp
  have a_chars: "\<forall>c\<in>set ?a. \<not> is_delim c" using ui_chars hp_chars by auto
  have sp: "authority_spelling p = slashes_part p @ ?a @ tail_part p"
    by (simp add: authority_spelling_def)
  have 1: "authority_text (authority_spelling p) = ?a"
    unfolding sp using sl a_ne a_chars tl by (rule authority_text_unique)
  have at: "at_sign \<notin> set ?hp" using hp_chars by blast
  have pre: "?ui = [] \<or> last ?ui = at_sign" by (simp split: option.splits)
  have 2: "host_port_text ?a = ?hp" using at pre by (rule host_port_text_unique)
  have ptc: "?pt = [] \<or> hd ?pt = colon" by (simp split: option.splits)
  have 3: "scan_host False ?hp = (host_part p, ?pt)" using vh ptc by (rule scan_host_valid)
  have 4: "parse_port ?pt = Some (port_part p)"
    unfolding parse_port_iff[OF ptc] using po by simp
  show ?thesis unfolding url_authority_def 1 2 3 using vh 4 by simp
qed

lemma url_authority_sound:
  assumes "url_authority after = Some (host, port)"
  shows "\<exists>p. after = authority_spelling p \<and> authority_well_formed p \<and>
           host_part p = host \<and> port_part p = port"
proof -
  let ?auth = "authority_text after"
  let ?hp = "host_port_text ?auth"
  obtain h r where s: "scan_host False ?hp = (h, r)" by (cases "scan_host False ?hp")
  from assms s have vh: "valid_host h" and pp: "parse_port r = Some port" and hh: "h = host"
    by (auto simp: url_authority_def split: if_splits option.splits)
  from scan_host_append[OF s] have hr: "?hp = h @ r" "r = [] \<or> hd r = colon" by blast+
  from pp parse_port_iff[OF hr(2)] have
    r: "r = (case port of None \<Rightarrow> [] | Some ds \<Rightarrow> colon # ds)" and
    po: "case port of None \<Rightarrow> True | Some ds \<Rightarrow> list_all is_digit ds \<and> port_value ds \<le> 65535"
    by blast+
  from host_port_text_split[of ?auth] obtain pre where
    pre: "?auth = pre @ ?hp" "pre = [] \<or> last pre = at_sign" by blast
  from authority_text_split[of after] obtain sl tail where
    st: "after = sl @ ?auth @ tail" "list_all is_slash sl" "url_tail tail"
        "\<forall>c\<in>set ?auth. \<not> is_delim c" by blast
  let ?ui = "if pre = [] then None else Some (butlast pre)"
  let ?p = "\<lparr>scheme_part = [], slashes_part = sl, userinfo_part = ?ui, host_part = host,
             port_part = port, tail_part = tail\<rparr>"
  have uit: "(case ?ui of None \<Rightarrow> [] | Some u \<Rightarrow> u @ [at_sign]) = pre"
  proof (cases "pre = []")
    case True
    then show ?thesis by simp
  next
    case False
    with pre(2) have "butlast pre @ [at_sign] = pre" by (metis append_butlast_last_id)
    with False show ?thesis by simp
  qed
  have "after = sl @ pre @ host @ r @ tail" using st(1) pre(1) hr(1) hh by simp
  then have 1: "after = authority_spelling ?p"
    unfolding authority_spelling_def using uit r by simp
  have "\<forall>c\<in>set pre. \<not> is_delim c" using st(4) pre(1) by (metis Un_iff set_append)
  then have uic: "case ?ui of None \<Rightarrow> True | Some u \<Rightarrow> list_all (\<lambda>c. \<not> is_delim c) u"
    by (auto simp: list_all_iff dest: in_set_butlastD)
  have 2: "authority_well_formed ?p"
    unfolding authority_well_formed_def using st(2,3) uic vh hh po by simp
  from 1 2 show ?thesis by (intro exI[of _ ?p]) simp
qed

lemma url_authority_iff:
  "url_authority after = Some (host, port) \<longleftrightarrow>
     (\<exists>p. after = authority_spelling p \<and> authority_well_formed p \<and>
          host_part p = host \<and> port_part p = port)"
  using url_authority_sound url_authority_complete by blast























end
